theory Spec2Isabelle
  imports Complex_Main "HOL-Library.Product_Lexorder"
begin

section \<open>Values of the data frame\<close>

text \<open>
  The dashboard script \<^verbatim>\<open>prac.py\<close> works on pandas data frames. A numeric cell is a
  float: a finite number, an infinity or NaN. Finite floats are idealised as reals
  (no rounding, no signed zero); the infinities and NaN are kept, since the script's
  handling of zero denominators is about exactly these values.
\<close>

datatype fl = Fin real | PInf | NInf | NaN

fun fneg :: "fl \<Rightarrow> fl" where
  "fneg (Fin a) = Fin (- a)"
| "fneg PInf = NInf"
| "fneg NInf = PInf"
| "fneg NaN = NaN"

fun fadd :: "fl \<Rightarrow> fl \<Rightarrow> fl" where
  "fadd NaN _ = NaN"
| "fadd _ NaN = NaN"
| "fadd (Fin a) (Fin b) = Fin (a + b)"
| "fadd PInf NInf = NaN"
| "fadd NInf PInf = NaN"
| "fadd PInf _ = PInf"
| "fadd _ PInf = PInf"
| "fadd NInf _ = NInf"
| "fadd _ NInf = NInf"

definition fsub :: "fl \<Rightarrow> fl \<Rightarrow> fl" where
  "fsub a b = fadd a (fneg b)"

fun fmul :: "fl \<Rightarrow> fl \<Rightarrow> fl" where
  "fmul NaN _ = NaN"
| "fmul _ NaN = NaN"
| "fmul (Fin a) (Fin b) = Fin (a * b)"
| "fmul (Fin a) PInf = (if a = 0 then NaN else if 0 < a then PInf else NInf)"
| "fmul (Fin a) NInf = (if a = 0 then NaN else if 0 < a then NInf else PInf)"
| "fmul PInf (Fin b) = (if b = 0 then NaN else if 0 < b then PInf else NInf)"
| "fmul NInf (Fin b) = (if b = 0 then NaN else if 0 < b then NInf else PInf)"
| "fmul PInf PInf = PInf"
| "fmul NInf NInf = PInf"
| "fmul PInf NInf = NInf"
| "fmul NInf PInf = NInf"

text \<open>
  Float division does not raise: a finite number divided by zero is an infinity
  (NaN for \<open>0 / 0\<close>).
\<close>

fun fdiv :: "fl \<Rightarrow> fl \<Rightarrow> fl" where
  "fdiv NaN _ = NaN"
| "fdiv _ NaN = NaN"
| "fdiv (Fin a) (Fin b) =
     (if b \<noteq> 0 then Fin (a / b)
      else if 0 < a then PInf else if a < 0 then NInf else NaN)"
| "fdiv (Fin a) _ = Fin 0"
| "fdiv PInf (Fin b) = (if 0 \<le> b then PInf else NInf)"
| "fdiv NInf (Fin b) = (if 0 \<le> b then NInf else PInf)"
| "fdiv _ _ = NaN"

text \<open>The comparison \<^verbatim>\<open>x >= c\<close> against a finite constant; it is false for NaN.\<close>

fun fge :: "fl \<Rightarrow> real \<Rightarrow> bool" where
  "fge (Fin a) c = (c \<le> a)"
| "fge PInf c = True"
| "fge NInf c = False"
| "fge NaN c = False"

record date =
  year :: nat
  month :: nat
  day :: nat

definition date_le :: "date \<Rightarrow> date \<Rightarrow> bool" where
  "date_le a b =
     (year a < year b \<or>
      (year a = year b \<and> (month a < month b \<or> (month a = month b \<and> day a \<le> day b))))"

datatype cell = Num fl | Txt string | Day date | NaT

datatype error =
  KeyError string | TypeError | ValueError | AttributeError | ZeroDivisionError |
  OverflowError

definition bindE :: "error + 'a \<Rightarrow> ('a \<Rightarrow> error + 'b) \<Rightarrow> error + 'b" where
  "bindE m f = (case m of Inl e \<Rightarrow> Inl e | Inr x \<Rightarrow> f x)"

fun mapE :: "('a \<Rightarrow> error + 'b) \<Rightarrow> 'a list \<Rightarrow> error + 'b list" where
  "mapE f [] = Inr []"
| "mapE f (x # xs) =
     (case f x of Inl e \<Rightarrow> Inl e
      | Inr y \<Rightarrow> (case mapE f xs of Inl e \<Rightarrow> Inl e | Inr ys \<Rightarrow> Inr (y # ys)))"

text \<open>Element-wise operations on columns: the first failing element raises.\<close>

definition zipE :: "('a \<Rightarrow> 'b \<Rightarrow> error + 'c) \<Rightarrow> 'a list \<Rightarrow> 'b list \<Rightarrow> error + 'c list" where
  "zipE f xs ys = mapE (\<lambda>(x, y). f x y) (zip xs ys)"

fun cell_add :: "cell \<Rightarrow> cell \<Rightarrow> error + cell" where
  "cell_add (Num a) (Num b) = Inr (Num (fadd a b))"
| "cell_add (Txt a) (Txt b) = Inr (Txt (a @ b))"
| "cell_add _ _ = Inl TypeError"

fun cell_sub :: "cell \<Rightarrow> cell \<Rightarrow> error + cell" where
  "cell_sub (Num a) (Num b) = Inr (Num (fsub a b))"
| "cell_sub _ _ = Inl TypeError"

fun cell_div :: "cell \<Rightarrow> cell \<Rightarrow> error + cell" where
  "cell_div (Num a) (Num b) = Inr (Num (fdiv a b))"
| "cell_div _ _ = Inl TypeError"

text \<open>\<^verbatim>\<open>x * 100\<close>: a number is scaled, a Python string is repeated.\<close>

fun cell_mul100 :: "cell \<Rightarrow> error + cell" where
  "cell_mul100 (Num a) = Inr (Num (fmul a (Fin 100)))"
| "cell_mul100 (Txt s) = Inr (Txt (concat (replicate 100 s)))"
| "cell_mul100 _ = Inl TypeError"

text \<open>\<^verbatim>\<open>.replace(0, np.nan)\<close> on one cell.\<close>

fun replace0 :: "cell \<Rightarrow> cell" where
  "replace0 (Num (Fin a)) = (if a = 0 then Num NaN else Num (Fin a))"
| "replace0 c = c"

section \<open>Data frames\<close>

text \<open>
  A frame has its column labels in order and its rows in order; a row maps a label to
  a cell. \<^verbatim>\<open>df[c]\<close> raises KeyError for a label that is not a column.
\<close>

type_synonym row = "string \<rightharpoonup> cell"

record frame =
  columns :: "string list"
  rows :: "row list"

definition cell_of :: "row \<Rightarrow> string \<Rightarrow> cell" where
  "cell_of r c = (case r c of Some v \<Rightarrow> v | None \<Rightarrow> Num NaN)"

definition getitem :: "frame \<Rightarrow> string \<Rightarrow> error + cell list" where
  "getitem df c =
     (if c \<in> set (columns df) then Inr (map (\<lambda>r. cell_of r c) (rows df))
      else Inl (KeyError c))"

definition setitem :: "frame \<Rightarrow> string \<Rightarrow> cell list \<Rightarrow> frame" where
  "setitem df c vs =
     df\<lparr>columns := (if c \<in> set (columns df) then columns df else columns df @ [c]),
        rows := map (\<lambda>(r, v). r(c \<mapsto> v)) (zip (rows df) vs)\<rparr>"

section \<open>clean\_and\_engineer\<close>

text \<open>
  \<^verbatim>\<open>pd.to_datetime\<close> is taken as a parameter \<open>parse\<close> for the cells that are not
  dates yet (text, numbers); a cell it rejects raises ValueError, a missing value
  becomes NaT.
\<close>

fun to_datetime_cell :: "(cell \<Rightarrow> date option) \<Rightarrow> cell \<Rightarrow> error + cell" where
  "to_datetime_cell parse (Day d) = Inr (Day d)"
| "to_datetime_cell parse NaT = Inr NaT"
| "to_datetime_cell parse (Num NaN) = Inr NaT"
| "to_datetime_cell parse c =
     (case parse c of Some d \<Rightarrow> Inr (Day d) | None \<Rightarrow> Inl ValueError)"

text \<open>
  The lambda of \<^verbatim>\<open>performance_category\<close>: three comparisons in the source's order,
  each false for NaN.
\<close>

fun performance_category :: "cell \<Rightarrow> error + cell" where
  "performance_category (Num x) =
     Inr (Txt (if fge x 200 then ''High Performer''
               else if fge x 100 then ''Good Performer''
               else if fge x 0 then ''Average Performer''
               else ''Poor Performer''))"
| "performance_category _ = Inl TypeError"

definition set_date :: "(cell \<Rightarrow> date option) \<Rightarrow> frame \<Rightarrow> error + frame" where
  "set_date parse df =
     bindE (getitem df ''date'') (\<lambda>d.
     bindE (mapE (to_datetime_cell parse) d) (\<lambda>v.
     Inr (setitem df ''date'' v)))"

definition set_engagement :: "frame \<Rightarrow> error + frame" where
  "set_engagement df =
     bindE (getitem df ''likes'') (\<lambda>l.
     bindE (getitem df ''comments'') (\<lambda>c.
     bindE (zipE cell_add l c) (\<lambda>v.
     Inr (setitem df ''engagement'' v))))"

definition set_engagement_rate :: "frame \<Rightarrow> error + frame" where
  "set_engagement_rate df =
     bindE (getitem df ''engagement'') (\<lambda>e.
     bindE (getitem df ''reach'') (\<lambda>r.
     bindE (zipE cell_div e (map replace0 r)) (\<lambda>q.
     bindE (mapE cell_mul100 q) (\<lambda>v.
     Inr (setitem df ''engagement_rate'' v)))))"

definition set_roas :: "frame \<Rightarrow> error + frame" where
  "set_roas df =
     bindE (getitem df ''revenue'') (\<lambda>r.
     bindE (getitem df ''total_payout'') (\<lambda>p.
     bindE (zipE cell_div r (map replace0 p)) (\<lambda>v.
     Inr (setitem df ''roas'' v))))"

definition set_roi_percentage :: "frame \<Rightarrow> error + frame" where
  "set_roi_percentage df =
     bindE (getitem df ''revenue'') (\<lambda>r.
     bindE (getitem df ''total_payout'') (\<lambda>p.
     bindE (zipE cell_sub r p) (\<lambda>n.
     bindE (getitem df ''total_payout'') (\<lambda>p'.
     bindE (zipE cell_div n (map replace0 p')) (\<lambda>q.
     bindE (mapE cell_mul100 q) (\<lambda>v.
     Inr (setitem df ''roi_percentage'' v)))))))"

definition set_average_order_value :: "frame \<Rightarrow> error + frame" where
  "set_average_order_value df =
     bindE (getitem df ''revenue'') (\<lambda>r.
     bindE (getitem df ''orders'') (\<lambda>n.
     bindE (zipE cell_div r (map replace0 n)) (\<lambda>v.
     Inr (setitem df ''average_order_value'' v))))"

definition set_performance_category :: "frame \<Rightarrow> error + frame" where
  "set_performance_category df =
     bindE (getitem df ''roi_percentage'') (\<lambda>x.
     bindE (mapE performance_category x) (\<lambda>v.
     Inr (setitem df ''performance_category'' v)))"

text \<open>The seven assignments of \<^verbatim>\<open>clean_and_engineer\<close>, in the source's order.\<close>

definition clean_and_engineer :: "(cell \<Rightarrow> date option) \<Rightarrow> frame \<Rightarrow> error + frame" where
  "clean_and_engineer parse df =
     bindE (set_date parse df) (\<lambda>df1.
     bindE (set_engagement df1) (\<lambda>df2.
     bindE (set_engagement_rate df2) (\<lambda>df3.
     bindE (set_roas df3) (\<lambda>df4.
     bindE (set_roi_percentage df4) (\<lambda>df5.
     bindE (set_average_order_value df5) (\<lambda>df6.
     set_performance_category df6))))))"

section \<open>Well-formed input and example frames\<close>

fun is_num :: "cell \<Rightarrow> bool" where
  "is_num (Num x) = True"
| "is_num c = False"

definition numeric_row :: "row \<Rightarrow> bool" where
  "numeric_row r =
     list_all (\<lambda>c. is_num (cell_of r c))
       [''likes'', ''comments'', ''reach'', ''revenue'', ''total_payout'', ''orders'']"

fun is_ok :: "error + 'a \<Rightarrow> bool" where
  "is_ok (Inr x) = True"
| "is_ok (Inl e) = False"

definition well_formed :: "(cell \<Rightarrow> date option) \<Rightarrow> frame \<Rightarrow> bool" where
  "well_formed parse df =
     (list_all (\<lambda>c. c \<in> set (columns df))
        [''date'', ''likes'', ''comments'', ''reach'', ''revenue'', ''total_payout'', ''orders''] \<and>
      list_all (\<lambda>r. numeric_row r \<and> is_ok (to_datetime_cell parse (cell_of r ''date'')))
        (rows df))"


definition required_columns :: "string list" where
  "required_columns =
     [''date'', ''name'', ''platform'', ''campaign'', ''category'', ''gender'', ''reach'',
      ''followers'', ''likes'', ''comments'', ''orders'', ''revenue'', ''total_payout'', ''basis'']"

definition campaign_row ::
  "date \<Rightarrow> string \<Rightarrow> string \<Rightarrow> string \<Rightarrow> string \<Rightarrow> string \<Rightarrow>
   real \<Rightarrow> real \<Rightarrow> real \<Rightarrow> real \<Rightarrow> real \<Rightarrow> real \<Rightarrow> real \<Rightarrow> string \<Rightarrow> row" where
  "campaign_row d nm pl ca ct ge re fo li co od rv tp ba =
     [''date'' \<mapsto> Day d, ''name'' \<mapsto> Txt nm, ''platform'' \<mapsto> Txt pl,
      ''campaign'' \<mapsto> Txt ca, ''category'' \<mapsto> Txt ct, ''gender'' \<mapsto> Txt ge,
      ''reach'' \<mapsto> Num (Fin re), ''followers'' \<mapsto> Num (Fin fo), ''likes'' \<mapsto> Num (Fin li),
      ''comments'' \<mapsto> Num (Fin co), ''orders'' \<mapsto> Num (Fin od), ''revenue'' \<mapsto> Num (Fin rv),
      ''total_payout'' \<mapsto> Num (Fin tp), ''basis'' \<mapsto> Txt ba]"

definition no_parse :: "cell \<Rightarrow> date option" where
  "no_parse c = None"

definition then_getitem :: "error + frame \<Rightarrow> string \<Rightarrow> error + cell list" where
  "then_getitem m c = bindE m (\<lambda>df. getitem df c)"

definition zero_frame :: frame where
  "zero_frame =
     \<lparr>columns = required_columns,
      rows = [campaign_row \<lparr>year = 2024, month = 1, day = 1\<rparr> ''Influencer 1'' ''Instagram''
                ''Spring'' ''Beauty'' ''Female'' 0 11000 350 40 0 22000 0 ''Post'']\<rparr>"

definition spec_example_frame :: frame where
  "spec_example_frame =
     \<lparr>columns = required_columns,
      rows = [campaign_row \<lparr>year = 2024, month = 1, day = 1\<rparr> ''Influencer 1'' ''Instagram''
                ''Spring'' ''Beauty'' ''Female'' 10000 11000 350 40 27 3000 1000 ''Post'',
              campaign_row \<lparr>year = 2024, month = 1, day = 4\<rparr> ''Influencer 2'' ''YouTube''
                ''New Year'' ''Fitness'' ''Male'' 8000 8200 200 15 15 250 500 ''Order'']\<rparr>"


section \<open>The filter\<close>

text \<open>
  The sidebar's selections: the two ends of the date range, the four multiselect
  lists, and the performance band (\<^verbatim>\<open>All\<close> or one category).
\<close>

record filter_spec =
  date_min :: date
  date_max :: date
  campaigns :: "string list"
  platforms :: "string list"
  categories :: "string list"
  genders :: "string list"
  perf_band :: string

fun is_datetime :: "cell \<Rightarrow> bool" where
  "is_datetime (Day d) = True"
| "is_datetime NaT = True"
| "is_datetime c = False"

text \<open>\<^verbatim>\<open>.dt.date\<close>: the accessor raises AttributeError on a column that is not of dates.\<close>

definition dt_date :: "cell list \<Rightarrow> error + cell list" where
  "dt_date xs = (if list_all is_datetime xs then Inr xs else Inl AttributeError)"

fun between_cell :: "date \<Rightarrow> date \<Rightarrow> cell \<Rightarrow> bool" where
  "between_cell lo hi (Day d) = (date_le lo d \<and> date_le d hi)"
| "between_cell lo hi c = False"

definition between :: "cell list \<Rightarrow> date \<Rightarrow> date \<Rightarrow> bool list" where
  "between xs lo hi = map (between_cell lo hi) xs"

fun isin_cell :: "string list \<Rightarrow> cell \<Rightarrow> bool" where
  "isin_cell vs (Txt s) = (s \<in> set vs)"
| "isin_cell vs c = False"

definition isin :: "cell list \<Rightarrow> string list \<Rightarrow> bool list" where
  "isin xs vs = map (isin_cell vs) xs"

definition eq_col :: "cell list \<Rightarrow> string \<Rightarrow> bool list" where
  "eq_col xs v = map (\<lambda>c. c = Txt v) xs"

definition mask_and :: "bool list \<Rightarrow> bool list \<Rightarrow> bool list" where
  "mask_and xs ys = map (\<lambda>(x, y). x \<and> y) (zip xs ys)"

text \<open>The mask \<^verbatim>\<open>flt\<close>: five conjuncts, and the band when it is not \<^verbatim>\<open>All\<close>.\<close>

definition flt :: "frame \<Rightarrow> filter_spec \<Rightarrow> error + bool list" where
  "flt df S =
     bindE (getitem df ''date'') (\<lambda>d.
     bindE (dt_date d) (\<lambda>dd.
     bindE (getitem df ''campaign'') (\<lambda>c.
     bindE (getitem df ''platform'') (\<lambda>p.
     bindE (getitem df ''category'') (\<lambda>k.
     bindE (getitem df ''gender'') (\<lambda>g.
     let m = mask_and (mask_and (mask_and (mask_and
               (between dd (date_min S) (date_max S))
               (isin c (campaigns S))) (isin p (platforms S)))
               (isin k (categories S))) (isin g (genders S))
     in if perf_band S \<noteq> ''All''
        then bindE (getitem df ''performance_category'') (\<lambda>pc.
               Inr (mask_and m (eq_col pc (perf_band S))))
        else Inr m))))))"

text \<open>\<^verbatim>\<open>df[mask]\<close>: a new frame with the rows whose mask entry is true.\<close>

definition getitem_mask :: "frame \<Rightarrow> bool list \<Rightarrow> frame" where
  "getitem_mask df m = df\<lparr>rows := map fst (filter snd (zip (rows df) m))\<rparr>"

definition data :: "frame \<Rightarrow> filter_spec \<Rightarrow> error + frame" where
  "data df S = bindE (flt df S) (\<lambda>m. Inr (getitem_mask df m))"

definition empty :: "frame \<Rightarrow> bool" where
  "empty df = (rows df = [])"

text \<open>The mask read row by row, and the frames on which \<^verbatim>\<open>flt\<close> does not raise.\<close>

definition keep :: "filter_spec \<Rightarrow> row \<Rightarrow> bool" where
  "keep S r =
     (between_cell (date_min S) (date_max S) (cell_of r ''date'') \<and>
      isin_cell (campaigns S) (cell_of r ''campaign'') \<and>
      isin_cell (platforms S) (cell_of r ''platform'') \<and>
      isin_cell (categories S) (cell_of r ''category'') \<and>
      isin_cell (genders S) (cell_of r ''gender'') \<and>
      (perf_band S = ''All'' \<or> cell_of r ''performance_category'' = Txt (perf_band S)))"

definition filterable :: "frame \<Rightarrow> filter_spec \<Rightarrow> bool" where
  "filterable df S =
     (list_all (\<lambda>c. c \<in> set (columns df))
        [''date'', ''campaign'', ''platform'', ''category'', ''gender''] \<and>
      (perf_band S = ''All'' \<or> ''performance_category'' \<in> set (columns df)) \<and>
      list_all (\<lambda>r. is_datetime (cell_of r ''date'')) (rows df))"

text \<open>
  The sidebar's defaults on the specification's two-record example (every option
  selected, the whole date range, band \<^verbatim>\<open>All\<close>), and the same with no platform selected.
\<close>

definition select_all :: filter_spec where
  "select_all =
     \<lparr>date_min = \<lparr>year = 2024, month = 1, day = 1\<rparr>,
      date_max = \<lparr>year = 2024, month = 1, day = 4\<rparr>,
      campaigns = [''New Year'', ''Spring''], platforms = [''Instagram'', ''YouTube''],
      categories = [''Beauty'', ''Fitness''], genders = [''Female'', ''Male''],
      perf_band = ''All''\<rparr>"

definition no_platform :: filter_spec where
  "no_platform = select_all\<lparr>platforms := []\<rparr>"


section \<open>The session: frames as objects\<close>

text \<open>
  The script holds its frames by reference. The heap is the list of frame objects, a
  reference is an index into it. \<^verbatim>\<open>df[flt]\<close> and \<^verbatim>\<open>data.copy()\<close> build a new object;
  \<^verbatim>\<open>data["year_month"] = ...\<close> and \<^verbatim>\<open>trend["month"] = ...\<close> write into the object their
  variable refers to. The tabs in between only read \<^verbatim>\<open>data\<close>, and are left out.
\<close>

record session =
  heap :: "frame list"
  df_ref :: nat
  data_ref :: nat
  trend_ref :: nat

fun digits :: "nat \<Rightarrow> string" where
  "digits n =
     (if n < 10 then [''0123456789'' ! n] else digits (n div 10) @ [''0123456789'' ! (n mod 10)])"

definition zero_pad :: "nat \<Rightarrow> string \<Rightarrow> string" where
  "zero_pad w s = replicate (w - length s) (CHR ''0'') @ s"

text \<open>\<^verbatim>\<open>.dt.to_period("M").astype(str)\<close> on one cell, as in \<^verbatim>\<open>2024-01\<close>.\<close>

fun year_month_cell :: "cell \<Rightarrow> cell" where
  "year_month_cell (Day d) = Txt (zero_pad 4 (digits (year d)) @ ''-'' @ zero_pad 2 (digits (month d)))"
| "year_month_cell c = Txt ''NaT''"

definition to_period_M :: "frame \<Rightarrow> error + cell list" where
  "to_period_M f =
     bindE (getitem f ''date'') (\<lambda>c.
     bindE (dt_date c) (\<lambda>dd. Inr (map year_month_cell dd)))"

text \<open>Lines 133 to 144: the mask on \<^verbatim>\<open>df\<close>, and \<^verbatim>\<open>data\<close> bound to a new object.\<close>

definition filter_step :: "filter_spec \<Rightarrow> session \<Rightarrow> error + session" where
  "filter_step S st =
     bindE (flt (heap st ! df_ref st) S) (\<lambda>m.
     Inr (st\<lparr>heap := heap st @ [getitem_mask (heap st ! df_ref st) m],
            data_ref := length (heap st)\<rparr>))"

text \<open>Lines 210 and 211: \<^verbatim>\<open>trend = data.copy()\<close>, then the new column on the copy.\<close>

definition trend_step :: "session \<Rightarrow> error + session" where
  "trend_step st =
     (let st1 = st\<lparr>heap := heap st @ [heap st ! data_ref st], trend_ref := length (heap st)\<rparr>
      in bindE (to_period_M (heap st1 ! trend_ref st1)) (\<lambda>v.
         Inr (st1\<lparr>heap := (heap st1)[trend_ref st1 :=
                       setitem (heap st1 ! trend_ref st1) ''month'' v]\<rparr>)))"

text \<open>Line 429: the new column is written into the object \<^verbatim>\<open>data\<close> refers to.\<close>

definition year_month_step :: "session \<Rightarrow> error + session" where
  "year_month_step st =
     bindE (to_period_M (heap st ! data_ref st)) (\<lambda>v.
     Inr (st\<lparr>heap := (heap st)[data_ref st :=
                   setitem (heap st ! data_ref st) ''year_month'' v]\<rparr>))"

text \<open>The run: the script stops after the filter when the view is empty.\<close>

definition script :: "filter_spec \<Rightarrow> session \<Rightarrow> error + session" where
  "script S st =
     bindE (filter_step S st) (\<lambda>st1.
     if empty (heap st1 ! data_ref st1) then Inr st1
     else bindE (trend_step st1) year_month_step)"

definition example_session :: "frame \<Rightarrow> session" where
  "example_session f = \<lparr>heap = [f], df_ref = 0, data_ref = 0, trend_ref = 0\<rparr>"


section \<open>Top and bottom rows\<close>

text \<open>
  \<^verbatim>\<open>data.nlargest(10, metric_col)\<close> and \<^verbatim>\<open>data.nsmallest(10, metric_col)\<close> are calls into
  pandas, modelled as pandas documents them (\<^verbatim>\<open>keep='first'\<close>): the rows ordered by the
  column, descending or ascending, rows with equal values in their original order, rows
  with NaN last, and the first \<open>n\<close> of them. A column that is not numeric raises
  TypeError. The order is a stable insertion sort on a key: the key puts the
  infinities at the two ends.
\<close>

fun is_nan :: "cell \<Rightarrow> bool" where
  "is_nan (Num NaN) = True"
| "is_nan c = False"

fun asc_key :: "cell \<Rightarrow> int \<times> real" where
  "asc_key (Num (Fin a)) = (0, a)"
| "asc_key (Num NInf) = (- 1, 0)"
| "asc_key (Num PInf) = (1, 0)"
| "asc_key c = (2, 0)"

fun desc_key :: "cell \<Rightarrow> int \<times> real" where
  "desc_key (Num (Fin a)) = (0, - a)"
| "desc_key (Num PInf) = (- 1, 0)"
| "desc_key (Num NInf) = (1, 0)"
| "desc_key c = (2, 0)"

definition ordered_rows :: "(cell \<Rightarrow> int \<times> real) \<Rightarrow> string \<Rightarrow> row list \<Rightarrow> row list" where
  "ordered_rows key c rs =
     sort_key (\<lambda>r. key (cell_of r c)) (filter (\<lambda>r. \<not> is_nan (cell_of r c)) rs) @
     filter (\<lambda>r. is_nan (cell_of r c)) rs"

definition select_n :: "(cell \<Rightarrow> int \<times> real) \<Rightarrow> nat \<Rightarrow> string \<Rightarrow> frame \<Rightarrow> error + frame" where
  "select_n key n c df =
     bindE (getitem df c) (\<lambda>col.
     if list_all is_num col
     then Inr (df\<lparr>rows := take n (ordered_rows key c (rows df))\<rparr>)
     else Inl TypeError)"

definition nlargest :: "nat \<Rightarrow> string \<Rightarrow> frame \<Rightarrow> error + frame" where
  "nlargest n c df = select_n desc_key n c df"

definition nsmallest :: "nat \<Rightarrow> string \<Rightarrow> frame \<Rightarrow> error + frame" where
  "nsmallest n c df = select_n asc_key n c df"

text \<open>The specification's example: four rows A, B, C, D with revenues 100, 300, 300, 50.\<close>

definition top3_example :: frame where
  "top3_example =
     \<lparr>columns = [''name'', ''revenue''],
      rows = [ [''name'' \<mapsto> Txt ''A'', ''revenue'' \<mapsto> Num (Fin 100)],
              [''name'' \<mapsto> Txt ''B'', ''revenue'' \<mapsto> Num (Fin 300)],
              [''name'' \<mapsto> Txt ''C'', ''revenue'' \<mapsto> Num (Fin 300)],
              [''name'' \<mapsto> Txt ''D'', ''revenue'' \<mapsto> Num (Fin 50)]]\<rparr>"


section \<open>Aggregates of a view\<close>

text \<open>
  \<^verbatim>\<open>Series.sum\<close> of a numeric column skips NaN. Its result is a numpy scalar, and
  dividing numpy scalars does not raise: a zero denominator gives an infinity or NaN.
  The funnel converts its sums with \<^verbatim>\<open>int\<close> first, and dividing Python integers by
  zero raises ZeroDivisionError.
\<close>

fun fl_of :: "cell \<Rightarrow> error + fl" where
  "fl_of (Num x) = Inr x"
| "fl_of c = Inl TypeError"

definition series_sum :: "cell list \<Rightarrow> error + fl" where
  "series_sum xs =
     bindE (mapE fl_of xs) (\<lambda>vs. Inr (foldl fadd (Fin 0) (filter (\<lambda>v. v \<noteq> NaN) vs)))"

definition column_sum :: "frame \<Rightarrow> string \<Rightarrow> error + fl" where
  "column_sum v c = bindE (getitem v c) series_sum"

text \<open>Line 171, and again line 496 in the report: the overall ROI.\<close>

definition roi_all :: "frame \<Rightarrow> error + fl" where
  "roi_all v =
     bindE (column_sum v ''revenue'') (\<lambda>r.
     bindE (column_sum v ''total_payout'') (\<lambda>p.
     bindE (column_sum v ''total_payout'') (\<lambda>p'.
     Inr (fmul (fdiv (fsub r p) p') (Fin 100)))))"

text \<open>Line 188: cost per order.\<close>

definition cost_per_order :: "frame \<Rightarrow> error + fl" where
  "cost_per_order v =
     bindE (column_sum v ''total_payout'') (\<lambda>p.
     bindE (column_sum v ''orders'') (\<lambda>n.
     Inr (fdiv p n)))"

text \<open>\<^verbatim>\<open>int(x)\<close> truncates towards zero and raises on NaN and on the infinities.\<close>

fun py_int :: "fl \<Rightarrow> error + int" where
  "py_int (Fin a) = Inr (if 0 \<le> a then \<lfloor>a\<rfloor> else \<lceil>a\<rceil>)"
| "py_int NaN = Inl ValueError"
| "py_int x = Inl OverflowError"

definition py_truediv :: "int \<Rightarrow> int \<Rightarrow> error + real" where
  "py_truediv a b = (if b = 0 then Inl ZeroDivisionError else Inr (real_of_int a / real_of_int b))"

record funnel =
  conversion_efficiency :: real
  reach_to_engagement :: real
  engagement_to_order :: real
  order_to_revenue :: real
  funnel_roas :: fl

text \<open>Lines 265 to 286: the five sums, their integer values, and the ratios in order.\<close>

definition funnel_metrics :: "frame \<Rightarrow> error + funnel" where
  "funnel_metrics v =
     bindE (column_sum v ''reach'') (\<lambda>s0.
     bindE (column_sum v ''engagement'') (\<lambda>s1.
     bindE (column_sum v ''orders'') (\<lambda>s2.
     bindE (column_sum v ''revenue'') (\<lambda>s3.
     bindE (column_sum v ''total_payout'') (\<lambda>s4.
     bindE (py_int s0) (\<lambda>v0.
     bindE (py_int s1) (\<lambda>v1.
     bindE (py_int s2) (\<lambda>v2.
     bindE (py_int s3) (\<lambda>v3.
     bindE (py_int s4) (\<lambda>v4.
     bindE (py_truediv v2 v0) (\<lambda>a.
     bindE (py_truediv v1 v0) (\<lambda>b.
     bindE (py_truediv v2 v1) (\<lambda>c.
     bindE (py_truediv v3 v2) (\<lambda>d.
     Inr \<lparr>conversion_efficiency = a * 100, reach_to_engagement = b * 100,
          engagement_to_order = c * 100, order_to_revenue = d,
          funnel_roas = fdiv s3 s4\<rparr>))))))))))))))"

fun is_fin :: "cell \<Rightarrow> bool" where
  "is_fin (Num (Fin a)) = True"
| "is_fin c = False"

fun fin_of :: "cell \<Rightarrow> real" where
  "fin_of (Num (Fin a)) = a"
| "fin_of c = 0"

text \<open>A view with the funnel's five columns, all holding finite numbers.\<close>

definition finite_view :: "frame \<Rightarrow> bool" where
  "finite_view v =
     (list_all (\<lambda>c. c \<in> set (columns v) \<and> list_all (\<lambda>r. is_fin (cell_of r c)) (rows v))
        [''reach'', ''engagement'', ''orders'', ''revenue'', ''total_payout''])"

definition all_zero :: "frame \<Rightarrow> string \<Rightarrow> bool" where
  "all_zero v c = list_all (\<lambda>r. cell_of r c = Num (Fin 0)) (rows v)"

text \<open>Two one-record views: one without payout, reach and orders, one without orders only.\<close>

definition zero_view :: frame where
  "zero_view =
     \<lparr>columns = required_columns @ [''engagement''],
      rows = [(campaign_row \<lparr>year = 2024, month = 1, day = 1\<rparr> ''Influencer 1'' ''Instagram''
                ''Spring'' ''Beauty'' ''Female'' 0 11000 0 0 0 22000 0 ''Post'')
                (''engagement'' \<mapsto> Num (Fin 0))]\<rparr>"

definition no_orders_view :: frame where
  "no_orders_view =
     \<lparr>columns = required_columns @ [''engagement''],
      rows = [(campaign_row \<lparr>year = 2024, month = 1, day = 1\<rparr> ''Influencer 1'' ''Instagram''
                ''Spring'' ''Beauty'' ''Female'' 10000 11000 350 40 0 0 2000 ''Post'')
                (''engagement'' \<mapsto> Num (Fin 390))]\<rparr>"


section \<open>Outliers\<close>

text \<open>
  \<^verbatim>\<open>Series.mean\<close> and \<^verbatim>\<open>Series.std\<close> are calls into pandas, modelled as pandas documents
  them: both skip NaN, the mean of no values is NaN, and the standard deviation
  divides the squared deviations by the number of values less one (\<^verbatim>\<open>ddof=1\<close>), and is
  NaN for fewer than two values. A comparison with NaN is false.
\<close>

fun fsqrt :: "fl \<Rightarrow> fl" where
  "fsqrt (Fin a) = (if 0 \<le> a then Fin (sqrt a) else NaN)"
| "fsqrt PInf = PInf"
| "fsqrt x = NaN"

fun fless :: "fl \<Rightarrow> fl \<Rightarrow> bool" where
  "fless NaN _ = False"
| "fless _ NaN = False"
| "fless (Fin a) (Fin b) = (a < b)"
| "fless NInf NInf = False"
| "fless NInf _ = True"
| "fless _ NInf = False"
| "fless PInf _ = False"
| "fless _ PInf = True"

definition series_mean :: "cell list \<Rightarrow> error + fl" where
  "series_mean xs =
     bindE (mapE fl_of xs) (\<lambda>vs.
     let ys = filter (\<lambda>v. v \<noteq> NaN) vs
     in Inr (fdiv (foldl fadd (Fin 0) ys) (Fin (real (length ys)))))"

definition series_std :: "cell list \<Rightarrow> error + fl" where
  "series_std xs =
     bindE (mapE fl_of xs) (\<lambda>vs.
     let ys = filter (\<lambda>v. v \<noteq> NaN) vs;
         avg = fdiv (foldl fadd (Fin 0) ys) (Fin (real (length ys)));
         sqr = map (\<lambda>y. fmul (fsub avg y) (fsub avg y)) ys
     in Inr (if length ys \<le> 1 then NaN
             else fsqrt (fdiv (foldl fadd (Fin 0) sqr) (Fin (real (length ys) - 1)))))"

definition gt_col :: "cell list \<Rightarrow> fl \<Rightarrow> error + bool list" where
  "gt_col xs t = mapE (\<lambda>c. bindE (fl_of c) (\<lambda>a. Inr (fless t a))) xs"

definition lt_col :: "cell list \<Rightarrow> fl \<Rightarrow> error + bool list" where
  "lt_col xs t = mapE (\<lambda>c. bindE (fl_of c) (\<lambda>a. Inr (fless a t))) xs"

definition mask_or :: "bool list \<Rightarrow> bool list \<Rightarrow> bool list" where
  "mask_or xs ys = map (\<lambda>(x, y). x \<or> y) (zip xs ys)"

text \<open>Indexing a frame with a list of labels: the listed columns, KeyError when one is missing.\<close>

definition select_columns :: "frame \<Rightarrow> string list \<Rightarrow> error + frame" where
  "select_columns df cs =
     (case find (\<lambda>c. c \<notin> set (columns df)) cs of
        Some c \<Rightarrow> Inl (KeyError c)
      | None \<Rightarrow> Inr (df\<lparr>columns := cs, rows := map (\<lambda>r. r |` set cs) (rows df)\<rparr>))"

definition outlier_columns :: "string list" where
  "outlier_columns =
     [''name'', ''campaign'', ''platform'', ''roi_percentage'', ''revenue'', ''total_payout'']"

text \<open>Lines 456 to 459 (and 561 to 564 in the report).\<close>

definition outlier_df :: "frame \<Rightarrow> error + frame" where
  "outlier_df v =
     bindE (getitem v ''roi_percentage'') (\<lambda>x.
     bindE (series_mean x) (\<lambda>m.
     bindE (series_std x) (\<lambda>s.
     bindE (gt_col x (fadd m (fmul (Fin 2) s))) (\<lambda>hi.
     bindE (series_mean x) (\<lambda>m'.
     bindE (series_std x) (\<lambda>s'.
     bindE (lt_col x (fsub m' (fmul (Fin 2) s'))) (\<lambda>lo.
     select_columns (getitem_mask v (mask_or hi lo)) outlier_columns)))))))"

text \<open>
  The specification's words: the values are the non-null \<^verbatim>\<open>roi_percentage\<close> of the
  view; a record is an outlier when its value is more than two sample standard
  deviations away from their mean.
\<close>

definition roi_values :: "frame \<Rightarrow> real list" where
  "roi_values v = map fin_of (filter is_fin (map (\<lambda>r. cell_of r ''roi_percentage'') (rows v)))"

definition sample_mean :: "real list \<Rightarrow> real" where
  "sample_mean xs = sum_list xs / real (length xs)"

definition sample_std :: "real list \<Rightarrow> real" where
  "sample_std xs =
     sqrt (sum_list (map (\<lambda>x. (x - sample_mean xs)\<^sup>2) xs) / (real (length xs) - 1))"

definition population_std :: "real list \<Rightarrow> real" where
  "population_std xs = sqrt (sum_list (map (\<lambda>x. (x - sample_mean xs)\<^sup>2) xs) / real (length xs))"

fun spec_outlier_value :: "real list \<Rightarrow> cell \<Rightarrow> bool" where
  "spec_outlier_value xs (Num (Fin a)) =
     (2 \<le> length xs \<and> 2 * sample_std xs < \<bar>a - sample_mean xs\<bar>)"
| "spec_outlier_value xs c = False"

definition spec_outlier :: "frame \<Rightarrow> row \<Rightarrow> bool" where
  "spec_outlier v r = spec_outlier_value (roi_values v) (cell_of r ''roi_percentage'')"

fun fin_or_nan :: "cell \<Rightarrow> bool" where
  "fin_or_nan (Num (Fin a)) = True"
| "fin_or_nan (Num NaN) = True"
| "fin_or_nan c = False"

fun num_of :: "cell \<Rightarrow> fl" where
  "num_of (Num x) = x"
| "num_of c = NaN"

definition outlier_view :: "frame \<Rightarrow> bool" where
  "outlier_view v =
     (list_all (\<lambda>c. c \<in> set (columns v)) outlier_columns \<and>
      list_all (\<lambda>r. fin_or_nan (cell_of r ''roi_percentage'')) (rows v))"

text \<open>Example views: a record's ROI is computed from its revenue and payout.\<close>

definition roi_row :: "string \<Rightarrow> real \<Rightarrow> real \<Rightarrow> row" where
  "roi_row nm rv tp =
     [''name'' \<mapsto> Txt nm, ''campaign'' \<mapsto> Txt ''Spring'', ''platform'' \<mapsto> Txt ''Instagram'',
      ''roi_percentage'' \<mapsto> Num (if tp = 0 then NaN else Fin ((rv - tp) / tp * 100)),
      ''revenue'' \<mapsto> Num (Fin rv), ''total_payout'' \<mapsto> Num (Fin tp)]"

definition far_view :: frame where
  "far_view =
     \<lparr>columns = outlier_columns,
      rows = [roi_row ''A'' 100 100, roi_row ''B'' 100 100, roi_row ''C'' 0 0,
              roi_row ''D'' 100 100, roi_row ''E'' 100 100, roi_row ''F'' 100 100,
              roi_row ''G'' 1100 100]\<rparr>"

definition near_view :: frame where
  "near_view =
     \<lparr>columns = outlier_columns,
      rows = [roi_row ''A'' 100 100, roi_row ''B'' 100 100, roi_row ''C'' 0 0,
              roi_row ''D'' 100 100, roi_row ''E'' 100 100, roi_row ''F'' 200 100,
              roi_row ''G'' 400 100]\<rparr>"


section \<open>Missing columns\<close>






section \<open>Lemmas about clean\_and\_engineer\<close>

lemma bindE_Inr: "bindE m f = Inr y \<longleftrightarrow> (\<exists>x. m = Inr x \<and> f x = Inr y)"
  by (cases m) (auto simp: bindE_def)

lemma mapE_Inr:
  "mapE f xs = Inr ys \<Longrightarrow> length ys = length xs \<and> (\<forall>i<length xs. f (xs ! i) = Inr (ys ! i))"
proof (induction xs arbitrary: ys)
  case Nil
  then show ?case by simp
next
  case (Cons x xs)
  from Cons.prems obtain y ys' where fx: "f x = Inr y" and rest: "mapE f xs = Inr ys'"
    and ys: "ys = y # ys'"
    by (auto split: sum.splits)
  from Cons.IH [OF rest] have len: "length ys' = length xs"
    and nth: "\<forall>i<length xs. f (xs ! i) = Inr (ys' ! i)" by simp_all
  show ?case
  proof (intro conjI allI impI)
    show "length ys = length (x # xs)" using len ys by simp
  next
    fix i assume "i < length (x # xs)"
    then show "f ((x # xs) ! i) = Inr (ys ! i)"
      using fx nth ys by (cases i) simp_all
  qed
qed

lemma mapE_total:
  "(\<And>x. x \<in> set xs \<Longrightarrow> \<exists>y. f x = Inr y) \<Longrightarrow> \<exists>ys. mapE f xs = Inr ys"
proof (induction xs)
  case Nil
  then show ?case by simp
next
  case (Cons x xs)
  from Cons.prems [of x] obtain y where "f x = Inr y" by auto
  moreover from Cons.IH Cons.prems obtain ys where "mapE f xs = Inr ys" by auto
  ultimately show ?case by simp
qed

lemma zipE_Inr:
  assumes "zipE f xs ys = Inr zs" and "length xs = length ys"
  shows "length zs = length xs \<and> (\<forall>i<length xs. f (xs ! i) (ys ! i) = Inr (zs ! i))"
  using mapE_Inr [of "\<lambda>(x, y). f x y" "zip xs ys" zs] assms
  by (simp add: zipE_def)

lemma getitem_Inr:
  "getitem df c = Inr xs \<Longrightarrow> c \<in> set (columns df) \<and> xs = map (\<lambda>r. cell_of r c) (rows df)"
  by (auto simp: getitem_def split: if_splits)

lemma rows_setitem:
  "length vs = length (rows df) \<Longrightarrow>
   length (rows (setitem df c vs)) = length (rows df) \<and>
   (\<forall>i<length (rows df). rows (setitem df c vs) ! i = (rows df ! i)(c \<mapsto> vs ! i))"
  by (simp add: setitem_def)

lemma columns_setitem:
  "set (columns (setitem df c vs)) = insert c (set (columns df))"
  by (auto simp: setitem_def)

lemma cell_of_upd: "cell_of (r(c \<mapsto> v)) c' = (if c' = c then v else cell_of r c')"
  by (simp add: cell_of_def)

lemma set_roas_Inr:
  assumes "set_roas df = Inr df'"
  shows "length (rows df') = length (rows df)"
    and "set (columns df') = insert ''roas'' (set (columns df))"
    and "\<And>i. i < length (rows df) \<Longrightarrow>
           \<exists>v. rows df' ! i = (rows df ! i)(''roas'' \<mapsto> v) \<and>
               cell_div (cell_of (rows df ! i) ''revenue'') (replace0 (cell_of (rows df ! i) ''total_payout'')) = Inr v"
proof -
  from assms obtain a b vs where a: "a = map (\<lambda>r. cell_of r ''revenue'') (rows df)"
    and b: "b = map (\<lambda>r. cell_of r ''total_payout'') (rows df)"
    and z: "zipE cell_div a (map replace0 b) = Inr vs" and df': "df' = setitem df ''roas'' vs"
    by (auto simp: set_roas_def bindE_Inr dest!: getitem_Inr)
  have eq: "length a = length (map replace0 b)" by (simp add: a b)
  from zipE_Inr [OF z eq] have len: "length vs = length (rows df)"
    and nth: "\<forall>i<length (rows df). cell_div (a ! i) ((map replace0 b) ! i) = Inr (vs ! i)"
    by (simp_all add: a)
  show "length (rows df') = length (rows df)"
    using rows_setitem [OF len] df' by simp
  show "set (columns df') = insert ''roas'' (set (columns df))"
    by (simp add: df' columns_setitem)
  fix i assume i: "i < length (rows df)"
  have "rows df' ! i = (rows df ! i)(''roas'' \<mapsto> vs ! i)"
    using rows_setitem [OF len] df' i by simp
  moreover have "cell_div (cell_of (rows df ! i) ''revenue'') (replace0 (cell_of (rows df ! i) ''total_payout'')) = Inr (vs ! i)"
    using nth i by (simp add: a b)
  ultimately show "\<exists>v. rows df' ! i = (rows df ! i)(''roas'' \<mapsto> v) \<and>
               cell_div (cell_of (rows df ! i) ''revenue'') (replace0 (cell_of (rows df ! i) ''total_payout'')) = Inr v"
    by blast
qed

lemma set_average_order_value_Inr:
  assumes "set_average_order_value df = Inr df'"
  shows "length (rows df') = length (rows df)"
    and "set (columns df') = insert ''average_order_value'' (set (columns df))"
    and "\<And>i. i < length (rows df) \<Longrightarrow>
           \<exists>v. rows df' ! i = (rows df ! i)(''average_order_value'' \<mapsto> v) \<and>
               cell_div (cell_of (rows df ! i) ''revenue'') (replace0 (cell_of (rows df ! i) ''orders'')) = Inr v"
proof -
  from assms obtain a b vs where a: "a = map (\<lambda>r. cell_of r ''revenue'') (rows df)"
    and b: "b = map (\<lambda>r. cell_of r ''orders'') (rows df)"
    and z: "zipE cell_div a (map replace0 b) = Inr vs" and df': "df' = setitem df ''average_order_value'' vs"
    by (auto simp: set_average_order_value_def bindE_Inr dest!: getitem_Inr)
  have eq: "length a = length (map replace0 b)" by (simp add: a b)
  from zipE_Inr [OF z eq] have len: "length vs = length (rows df)"
    and nth: "\<forall>i<length (rows df). cell_div (a ! i) ((map replace0 b) ! i) = Inr (vs ! i)"
    by (simp_all add: a)
  show "length (rows df') = length (rows df)"
    using rows_setitem [OF len] df' by simp
  show "set (columns df') = insert ''average_order_value'' (set (columns df))"
    by (simp add: df' columns_setitem)
  fix i assume i: "i < length (rows df)"
  have "rows df' ! i = (rows df ! i)(''average_order_value'' \<mapsto> vs ! i)"
    using rows_setitem [OF len] df' i by simp
  moreover have "cell_div (cell_of (rows df ! i) ''revenue'') (replace0 (cell_of (rows df ! i) ''orders'')) = Inr (vs ! i)"
    using nth i by (simp add: a b)
  ultimately show "\<exists>v. rows df' ! i = (rows df ! i)(''average_order_value'' \<mapsto> v) \<and>
               cell_div (cell_of (rows df ! i) ''revenue'') (replace0 (cell_of (rows df ! i) ''orders'')) = Inr v"
    by blast
qed

lemma set_engagement_Inr:
  assumes "set_engagement df = Inr df'"
  shows "length (rows df') = length (rows df)"
    and "set (columns df') = insert ''engagement'' (set (columns df))"
    and "\<And>i. i < length (rows df) \<Longrightarrow>
           \<exists>v. rows df' ! i = (rows df ! i)(''engagement'' \<mapsto> v) \<and>
               cell_add (cell_of (rows df ! i) ''likes'') (cell_of (rows df ! i) ''comments'') = Inr v"
proof -
  from assms obtain a b vs where a: "a = map (\<lambda>r. cell_of r ''likes'') (rows df)"
    and b: "b = map (\<lambda>r. cell_of r ''comments'') (rows df)"
    and z: "zipE cell_add a b = Inr vs" and df': "df' = setitem df ''engagement'' vs"
    by (auto simp: set_engagement_def bindE_Inr dest!: getitem_Inr)
  have eq: "length a = length b" by (simp add: a b)
  from zipE_Inr [OF z eq] have len: "length vs = length (rows df)"
    and nth: "\<forall>i<length (rows df). cell_add (a ! i) (b ! i) = Inr (vs ! i)"
    by (simp_all add: a)
  show "length (rows df') = length (rows df)"
    using rows_setitem [OF len] df' by simp
  show "set (columns df') = insert ''engagement'' (set (columns df))"
    by (simp add: df' columns_setitem)
  fix i assume i: "i < length (rows df)"
  have "rows df' ! i = (rows df ! i)(''engagement'' \<mapsto> vs ! i)"
    using rows_setitem [OF len] df' i by simp
  moreover have "cell_add (cell_of (rows df ! i) ''likes'') (cell_of (rows df ! i) ''comments'') = Inr (vs ! i)"
    using nth i by (simp add: a b)
  ultimately show "\<exists>v. rows df' ! i = (rows df ! i)(''engagement'' \<mapsto> v) \<and>
               cell_add (cell_of (rows df ! i) ''likes'') (cell_of (rows df ! i) ''comments'') = Inr v"
    by blast
qed

lemma set_date_Inr:
  assumes "set_date parse df = Inr df'"
  shows "length (rows df') = length (rows df)"
    and "set (columns df') = insert ''date'' (set (columns df))"
    and "\<And>i. i < length (rows df) \<Longrightarrow>
           \<exists>v. rows df' ! i = (rows df ! i)(''date'' \<mapsto> v) \<and>
               to_datetime_cell parse (cell_of (rows df ! i) ''date'') = Inr v"
proof -
  from assms obtain a vs where a: "a = map (\<lambda>r. cell_of r ''date'') (rows df)"
    and m: "mapE (to_datetime_cell parse) a = Inr vs" and df': "df' = setitem df ''date'' vs"
    by (auto simp: set_date_def bindE_Inr dest!: getitem_Inr)
  from mapE_Inr [OF m] have len: "length vs = length (rows df)"
    and nth: "\<forall>i<length (rows df). to_datetime_cell parse (a ! i) = Inr (vs ! i)"
    by (simp_all add: a)
  show "length (rows df') = length (rows df)"
    using rows_setitem [OF len] df' by simp
  show "set (columns df') = insert ''date'' (set (columns df))"
    by (simp add: df' columns_setitem)
  fix i assume i: "i < length (rows df)"
  have "rows df' ! i = (rows df ! i)(''date'' \<mapsto> vs ! i)"
    using rows_setitem [OF len] df' i by simp
  moreover have "to_datetime_cell parse (cell_of (rows df ! i) ''date'') = Inr (vs ! i)"
    using nth i by (simp add: a)
  ultimately show "\<exists>v. rows df' ! i = (rows df ! i)(''date'' \<mapsto> v) \<and>
               to_datetime_cell parse (cell_of (rows df ! i) ''date'') = Inr v"
    by blast
qed

lemma set_performance_category_Inr:
  assumes "set_performance_category df = Inr df'"
  shows "length (rows df') = length (rows df)"
    and "set (columns df') = insert ''performance_category'' (set (columns df))"
    and "\<And>i. i < length (rows df) \<Longrightarrow>
           \<exists>v. rows df' ! i = (rows df ! i)(''performance_category'' \<mapsto> v) \<and>
               performance_category (cell_of (rows df ! i) ''roi_percentage'') = Inr v"
proof -
  from assms obtain a vs where a: "a = map (\<lambda>r. cell_of r ''roi_percentage'') (rows df)"
    and m: "mapE performance_category a = Inr vs"
    and df': "df' = setitem df ''performance_category'' vs"
    by (auto simp: set_performance_category_def bindE_Inr dest!: getitem_Inr)
  from mapE_Inr [OF m] have len: "length vs = length (rows df)"
    and nth: "\<forall>i<length (rows df). performance_category (a ! i) = Inr (vs ! i)"
    by (simp_all add: a)
  show "length (rows df') = length (rows df)"
    using rows_setitem [OF len] df' by simp
  show "set (columns df') = insert ''performance_category'' (set (columns df))"
    by (simp add: df' columns_setitem)
  fix i assume i: "i < length (rows df)"
  have "rows df' ! i = (rows df ! i)(''performance_category'' \<mapsto> vs ! i)"
    using rows_setitem [OF len] df' i by simp
  moreover have "performance_category (cell_of (rows df ! i) ''roi_percentage'') = Inr (vs ! i)"
    using nth i by (simp add: a)
  ultimately show "\<exists>v. rows df' ! i = (rows df ! i)(''performance_category'' \<mapsto> v) \<and>
               performance_category (cell_of (rows df ! i) ''roi_percentage'') = Inr v"
    by blast
qed

lemma set_engagement_rate_Inr:
  assumes "set_engagement_rate df = Inr df'"
  shows "length (rows df') = length (rows df)"
    and "set (columns df') = insert ''engagement_rate'' (set (columns df))"
    and "\<And>i. i < length (rows df) \<Longrightarrow>
           \<exists>q v. rows df' ! i = (rows df ! i)(''engagement_rate'' \<mapsto> v) \<and>
               cell_div (cell_of (rows df ! i) ''engagement'')
                 (replace0 (cell_of (rows df ! i) ''reach'')) = Inr q \<and>
               cell_mul100 q = Inr v"
proof -
  from assms obtain a b qs vs where a: "a = map (\<lambda>r. cell_of r ''engagement'') (rows df)"
    and b: "b = map (\<lambda>r. cell_of r ''reach'') (rows df)"
    and z: "zipE cell_div a (map replace0 b) = Inr qs"
    and m: "mapE cell_mul100 qs = Inr vs"
    and df': "df' = setitem df ''engagement_rate'' vs"
    by (auto simp: set_engagement_rate_def bindE_Inr dest!: getitem_Inr)
  have eq: "length a = length (map replace0 b)" by (simp add: a b)
  from zipE_Inr [OF z eq] have lenq: "length qs = length (rows df)"
    and nthq: "\<forall>i<length (rows df). cell_div (a ! i) (map replace0 b ! i) = Inr (qs ! i)"
    by (simp_all add: a)
  from mapE_Inr [OF m] lenq have len: "length vs = length (rows df)"
    and nth: "\<forall>i<length (rows df). cell_mul100 (qs ! i) = Inr (vs ! i)"
    by simp_all
  show "length (rows df') = length (rows df)"
    using rows_setitem [OF len] df' by simp
  show "set (columns df') = insert ''engagement_rate'' (set (columns df))"
    by (simp add: df' columns_setitem)
  fix i assume i: "i < length (rows df)"
  have "rows df' ! i = (rows df ! i)(''engagement_rate'' \<mapsto> vs ! i)"
    using rows_setitem [OF len] df' i by simp
  moreover have "cell_div (cell_of (rows df ! i) ''engagement'')
                 (replace0 (cell_of (rows df ! i) ''reach'')) = Inr (qs ! i)"
    using nthq i by (simp add: a b)
  moreover have "cell_mul100 (qs ! i) = Inr (vs ! i)"
    using nth i by simp
  ultimately show "\<exists>q v. rows df' ! i = (rows df ! i)(''engagement_rate'' \<mapsto> v) \<and>
               cell_div (cell_of (rows df ! i) ''engagement'')
                 (replace0 (cell_of (rows df ! i) ''reach'')) = Inr q \<and>
               cell_mul100 q = Inr v"
    by blast
qed

lemma set_roi_percentage_Inr:
  assumes "set_roi_percentage df = Inr df'"
  shows "length (rows df') = length (rows df)"
    and "set (columns df') = insert ''roi_percentage'' (set (columns df))"
    and "\<And>i. i < length (rows df) \<Longrightarrow>
           \<exists>n q v. rows df' ! i = (rows df ! i)(''roi_percentage'' \<mapsto> v) \<and>
               cell_sub (cell_of (rows df ! i) ''revenue'')
                 (cell_of (rows df ! i) ''total_payout'') = Inr n \<and>
               cell_div n (replace0 (cell_of (rows df ! i) ''total_payout'')) = Inr q \<and>
               cell_mul100 q = Inr v"
proof -
  from assms obtain a b ns qs vs where a: "a = map (\<lambda>r. cell_of r ''revenue'') (rows df)"
    and b: "b = map (\<lambda>r. cell_of r ''total_payout'') (rows df)"
    and s: "zipE cell_sub a b = Inr ns"
    and z: "zipE cell_div ns (map replace0 b) = Inr qs"
    and m: "mapE cell_mul100 qs = Inr vs"
    and df': "df' = setitem df ''roi_percentage'' vs"
    by (auto simp: set_roi_percentage_def bindE_Inr dest!: getitem_Inr)
  have eqs: "length a = length b" by (simp add: a b)
  from zipE_Inr [OF s eqs] have lenn: "length ns = length (rows df)"
    and nthn: "\<forall>i<length (rows df). cell_sub (a ! i) (b ! i) = Inr (ns ! i)"
    by (simp_all add: a)
  have eq: "length ns = length (map replace0 b)" by (simp add: lenn b)
  from zipE_Inr [OF z eq] lenn have lenq: "length qs = length (rows df)"
    and nthq: "\<forall>i<length (rows df). cell_div (ns ! i) (map replace0 b ! i) = Inr (qs ! i)"
    by simp_all
  from mapE_Inr [OF m] lenq have len: "length vs = length (rows df)"
    and nth: "\<forall>i<length (rows df). cell_mul100 (qs ! i) = Inr (vs ! i)"
    by simp_all
  show "length (rows df') = length (rows df)"
    using rows_setitem [OF len] df' by simp
  show "set (columns df') = insert ''roi_percentage'' (set (columns df))"
    by (simp add: df' columns_setitem)
  fix i assume i: "i < length (rows df)"
  have "rows df' ! i = (rows df ! i)(''roi_percentage'' \<mapsto> vs ! i)"
    using rows_setitem [OF len] df' i by simp
  moreover have "cell_sub (cell_of (rows df ! i) ''revenue'')
                 (cell_of (rows df ! i) ''total_payout'') = Inr (ns ! i)"
    using nthn i by (simp add: a b)
  moreover have "cell_div (ns ! i) (replace0 (cell_of (rows df ! i) ''total_payout'')) = Inr (qs ! i)"
    using nthq i by (simp add: b)
  moreover have "cell_mul100 (qs ! i) = Inr (vs ! i)"
    using nth i by simp
  ultimately show "\<exists>n q v. rows df' ! i = (rows df ! i)(''roi_percentage'' \<mapsto> v) \<and>
               cell_sub (cell_of (rows df ! i) ''revenue'')
                 (cell_of (rows df ! i) ''total_payout'') = Inr n \<and>
               cell_div n (replace0 (cell_of (rows df ! i) ''total_payout'')) = Inr q \<and>
               cell_mul100 q = Inr v"
    by blast
qed

text \<open>Row \<open>i\<close> of the result, in terms of row \<open>i\<close> of the input.\<close>

lemma clean_and_engineer_row:
  assumes ok: "clean_and_engineer parse df = Inr df'" and i: "i < length (rows df)"
  shows "\<exists>d e q er ro n q' rp ao pc.
      rows df' ! i = (rows df ! i)(''date'' \<mapsto> d, ''engagement'' \<mapsto> e,
         ''engagement_rate'' \<mapsto> er, ''roas'' \<mapsto> ro, ''roi_percentage'' \<mapsto> rp,
         ''average_order_value'' \<mapsto> ao, ''performance_category'' \<mapsto> pc) \<and>
      to_datetime_cell parse (cell_of (rows df ! i) ''date'') = Inr d \<and>
      cell_add (cell_of (rows df ! i) ''likes'') (cell_of (rows df ! i) ''comments'') = Inr e \<and>
      cell_div e (replace0 (cell_of (rows df ! i) ''reach'')) = Inr q \<and>
      cell_mul100 q = Inr er \<and>
      cell_div (cell_of (rows df ! i) ''revenue'')
        (replace0 (cell_of (rows df ! i) ''total_payout'')) = Inr ro \<and>
      cell_sub (cell_of (rows df ! i) ''revenue'') (cell_of (rows df ! i) ''total_payout'') = Inr n \<and>
      cell_div n (replace0 (cell_of (rows df ! i) ''total_payout'')) = Inr q' \<and>
      cell_mul100 q' = Inr rp \<and>
      cell_div (cell_of (rows df ! i) ''revenue'')
        (replace0 (cell_of (rows df ! i) ''orders'')) = Inr ao \<and>
      performance_category rp = Inr pc"
proof -
  from ok obtain df1 df2 df3 df4 df5 df6 where
    s1: "set_date parse df = Inr df1" and s2: "set_engagement df1 = Inr df2" and
    s3: "set_engagement_rate df2 = Inr df3" and s4: "set_roas df3 = Inr df4" and
    s5: "set_roi_percentage df4 = Inr df5" and s6: "set_average_order_value df5 = Inr df6" and
    s7: "set_performance_category df6 = Inr df'"
    by (auto simp: clean_and_engineer_def bindE_Inr)
  note l1 = set_date_Inr(1) [OF s1]
  note l2 = set_engagement_Inr(1) [OF s2]
  note l3 = set_engagement_rate_Inr(1) [OF s3]
  note l4 = set_roas_Inr(1) [OF s4]
  note l5 = set_roi_percentage_Inr(1) [OF s5]
  note l6 = set_average_order_value_Inr(1) [OF s6]
  from set_date_Inr(3) [OF s1 i] obtain d where
    r1: "rows df1 ! i = (rows df ! i)(''date'' \<mapsto> d)" and
    d: "to_datetime_cell parse (cell_of (rows df ! i) ''date'') = Inr d" by blast
  have i1: "i < length (rows df1)" using i l1 by simp
  from set_engagement_Inr(3) [OF s2 i1] obtain e where
    r2: "rows df2 ! i = (rows df1 ! i)(''engagement'' \<mapsto> e)" and
    e: "cell_add (cell_of (rows df1 ! i) ''likes'') (cell_of (rows df1 ! i) ''comments'') = Inr e"
    by blast
  have i2: "i < length (rows df2)" using i1 l2 by simp
  from set_engagement_rate_Inr(3) [OF s3 i2] obtain q er where
    r3: "rows df3 ! i = (rows df2 ! i)(''engagement_rate'' \<mapsto> er)" and
    q: "cell_div (cell_of (rows df2 ! i) ''engagement'')
          (replace0 (cell_of (rows df2 ! i) ''reach'')) = Inr q" and
    er: "cell_mul100 q = Inr er" by blast
  have i3: "i < length (rows df3)" using i2 l3 by simp
  from set_roas_Inr(3) [OF s4 i3] obtain ro where
    r4: "rows df4 ! i = (rows df3 ! i)(''roas'' \<mapsto> ro)" and
    ro: "cell_div (cell_of (rows df3 ! i) ''revenue'')
           (replace0 (cell_of (rows df3 ! i) ''total_payout'')) = Inr ro" by blast
  have i4: "i < length (rows df4)" using i3 l4 by simp
  from set_roi_percentage_Inr(3) [OF s5 i4] obtain n q' rp where
    r5: "rows df5 ! i = (rows df4 ! i)(''roi_percentage'' \<mapsto> rp)" and
    n: "cell_sub (cell_of (rows df4 ! i) ''revenue'')
          (cell_of (rows df4 ! i) ''total_payout'') = Inr n" and
    q': "cell_div n (replace0 (cell_of (rows df4 ! i) ''total_payout'')) = Inr q'" and
    rp: "cell_mul100 q' = Inr rp" by blast
  have i5: "i < length (rows df5)" using i4 l5 by simp
  from set_average_order_value_Inr(3) [OF s6 i5] obtain ao where
    r6: "rows df6 ! i = (rows df5 ! i)(''average_order_value'' \<mapsto> ao)" and
    ao: "cell_div (cell_of (rows df5 ! i) ''revenue'')
           (replace0 (cell_of (rows df5 ! i) ''orders'')) = Inr ao" by blast
  have i6: "i < length (rows df6)" using i5 l6 by simp
  from set_performance_category_Inr(3) [OF s7 i6] obtain pc where
    r7: "rows df' ! i = (rows df6 ! i)(''performance_category'' \<mapsto> pc)" and
    pc: "performance_category (cell_of (rows df6 ! i) ''roi_percentage'') = Inr pc" by blast
  have "rows df' ! i = (rows df ! i)(''date'' \<mapsto> d, ''engagement'' \<mapsto> e,
         ''engagement_rate'' \<mapsto> er, ''roas'' \<mapsto> ro, ''roi_percentage'' \<mapsto> rp,
         ''average_order_value'' \<mapsto> ao, ''performance_category'' \<mapsto> pc)"
    by (simp only: r1 r2 r3 r4 r5 r6 r7)
  moreover have "cell_add (cell_of (rows df ! i) ''likes'') (cell_of (rows df ! i) ''comments'') = Inr e"
    using e by (simp add: r1 cell_of_upd)
  moreover have "cell_div e (replace0 (cell_of (rows df ! i) ''reach'')) = Inr q"
    using q by (simp add: r1 r2 cell_of_upd)
  moreover have "cell_div (cell_of (rows df ! i) ''revenue'')
        (replace0 (cell_of (rows df ! i) ''total_payout'')) = Inr ro"
    using ro by (simp add: r1 r2 r3 cell_of_upd)
  moreover have "cell_sub (cell_of (rows df ! i) ''revenue'') (cell_of (rows df ! i) ''total_payout'') = Inr n"
    using n by (simp add: r1 r2 r3 r4 cell_of_upd)
  moreover have "cell_div n (replace0 (cell_of (rows df ! i) ''total_payout'')) = Inr q'"
    using q' by (simp add: r1 r2 r3 r4 cell_of_upd)
  moreover have "cell_div (cell_of (rows df ! i) ''revenue'')
        (replace0 (cell_of (rows df ! i) ''orders'')) = Inr ao"
    using ao by (simp add: r1 r2 r3 r4 r5 cell_of_upd)
  moreover have "performance_category rp = Inr pc"
    using pc by (simp add: r5 r6 cell_of_upd)
  ultimately show ?thesis using d er rp by blast
qed

lemma is_num_conv: "is_num c \<longleftrightarrow> (\<exists>x. c = Num x)"
  by (cases c) simp_all

lemma is_ok_conv: "is_ok m \<longleftrightarrow> (\<exists>x. m = Inr x)"
  by (cases m) simp_all

lemma zipE_total:
  assumes "length xs = length ys"
    and "\<And>i. i < length xs \<Longrightarrow> \<exists>z. f (xs ! i) (ys ! i) = Inr z"
  shows "\<exists>zs. zipE f xs ys = Inr zs"
  unfolding zipE_def
proof (rule mapE_total)
  fix p assume "p \<in> set (zip xs ys)"
  then obtain i where "i < length xs" and "p = (xs ! i, ys ! i)"
    using assms(1) by (auto simp: in_set_zip)
  with assms(2) [of i] show "\<exists>y. (case p of (x, y) \<Rightarrow> f x y) = Inr y" by simp
qed

lemma upd_keeps:
  assumes len: "length (rows df') = length (rows df)"
    and upd: "\<And>i. i < length (rows df) \<Longrightarrow> \<exists>v. rows df' ! i = (rows df ! i)(c \<mapsto> v)"
    and ne: "c' \<noteq> c"
    and P: "\<forall>r\<in>set (rows df). P (cell_of r c')"
  shows "\<forall>r\<in>set (rows df'). P (cell_of r c')"
proof
  fix r assume "r \<in> set (rows df')"
  then obtain i where i: "i < length (rows df')" and r: "r = rows df' ! i"
    by (auto simp: in_set_conv_nth)
  from upd [of i] i len obtain v where "rows df' ! i = (rows df ! i)(c \<mapsto> v)" by auto
  then have "cell_of r c' = cell_of (rows df ! i) c'"
    using ne r by (simp add: cell_of_upd)
  moreover have "rows df ! i \<in> set (rows df)" using i len by simp
  ultimately show "P (cell_of r c')" using P by simp
qed

lemma upd_new:
  assumes len: "length (rows df') = length (rows df)"
    and upd: "\<And>i. i < length (rows df) \<Longrightarrow> \<exists>v. rows df' ! i = (rows df ! i)(c \<mapsto> v) \<and> P v"
  shows "\<forall>r\<in>set (rows df'). P (cell_of r c)"
proof
  fix r assume "r \<in> set (rows df')"
  then obtain i where i: "i < length (rows df')" and r: "r = rows df' ! i"
    by (auto simp: in_set_conv_nth)
  from upd [of i] i len obtain v where "rows df' ! i = (rows df ! i)(c \<mapsto> v)" and "P v" by auto
  then show "P (cell_of r c)" using r by (simp add: cell_of_upd)
qed

lemma cell_div_num: "is_num a \<Longrightarrow> is_num b \<Longrightarrow> \<exists>x. cell_div a (replace0 b) = Inr (Num x)"
  by (cases a; cases b rule: replace0.cases) auto

lemma cell_add_num: "is_num a \<Longrightarrow> is_num b \<Longrightarrow> \<exists>x. cell_add a b = Inr (Num x)"
  by (cases a; cases b) auto

lemma cell_sub_num: "is_num a \<Longrightarrow> is_num b \<Longrightarrow> \<exists>x. cell_sub a b = Inr (Num x)"
  by (cases a; cases b) auto

lemma cell_mul100_num: "is_num a \<Longrightarrow> \<exists>x. cell_mul100 a = Inr (Num x)"
  by (cases a) auto

lemma performance_category_num: "is_num a \<Longrightarrow> \<exists>x. performance_category a = Inr x"
  by (cases a) auto

lemma cell_div_Inr_num: "cell_div a b = Inr v \<Longrightarrow> is_num v"
  by (cases a; cases b) auto

lemma cell_add_Inr_num: "cell_add a b = Inr v \<Longrightarrow> is_num a \<Longrightarrow> is_num v"
  by (cases a; cases b) auto

lemma cell_mul100_Inr_num: "cell_mul100 a = Inr v \<Longrightarrow> is_num a \<Longrightarrow> is_num v"
  by (cases a) auto

lemma set_date_total:
  assumes "''date'' \<in> set (columns df)"
    and "\<forall>r\<in>set (rows df). is_ok (to_datetime_cell parse (cell_of r ''date''))"
  shows "\<exists>df'. set_date parse df = Inr df'"
proof -
  have "\<exists>vs. mapE (to_datetime_cell parse) (map (\<lambda>r. cell_of r ''date'') (rows df)) = Inr vs"
    by (rule mapE_total) (use assms(2) in \<open>auto simp: is_ok_conv\<close>)
  then show ?thesis using assms(1) by (auto simp: set_date_def getitem_def bindE_def)
qed

lemma zip_columns_total:
  assumes "\<And>r. r \<in> set rs \<Longrightarrow> \<exists>z. f (ga r) (gb r) = Inr z"
  shows "\<exists>vs. zipE f (map ga rs) (map gb rs) = Inr vs"
proof (rule zipE_total)
  show "length (map ga rs) = length (map gb rs)" by simp
next
  fix i assume "i < length (map ga rs)"
  then have "rs ! i \<in> set rs" and "i < length rs" by simp_all
  with assms [of "rs ! i"] show "\<exists>z. f (map ga rs ! i) (map gb rs ! i) = Inr z" by simp
qed

lemma set_engagement_total:
  assumes "''likes'' \<in> set (columns df)" "''comments'' \<in> set (columns df)"
    and "\<forall>r\<in>set (rows df). is_num (cell_of r ''likes'')"
    and "\<forall>r\<in>set (rows df). is_num (cell_of r ''comments'')"
  shows "\<exists>df'. set_engagement df = Inr df'"
proof -
  have "\<exists>vs. zipE cell_add (map (\<lambda>r. cell_of r ''likes'') (rows df))
          (map (\<lambda>r. cell_of r ''comments'') (rows df)) = Inr vs"
  proof (rule zip_columns_total)
    fix r assume "r \<in> set (rows df)"
    with assms(3,4) have "is_num (cell_of r ''likes'')" "is_num (cell_of r ''comments'')"
      by auto
    from cell_add_num [OF this]
    show "\<exists>z. cell_add (cell_of r ''likes'') (cell_of r ''comments'') = Inr z" by blast
  qed
  then show ?thesis using assms(1,2) by (auto simp: set_engagement_def getitem_def bindE_def)
qed

lemma div_column_total:
  assumes "\<forall>r\<in>set rs. is_num (cell_of r a)" and "\<forall>r\<in>set rs. is_num (cell_of r b)"
  shows "\<exists>vs. zipE cell_div (map (\<lambda>r. cell_of r a) rs)
          (map replace0 (map (\<lambda>r. cell_of r b) rs)) = Inr vs \<and> list_all is_num vs"
proof -
  have "\<exists>vs. zipE cell_div (map (\<lambda>r. cell_of r a) rs)
          (map (\<lambda>r. replace0 (cell_of r b)) rs) = Inr vs"
  proof (rule zip_columns_total)
    fix r assume "r \<in> set rs"
    with assms have "is_num (cell_of r a)" "is_num (cell_of r b)" by auto
    from cell_div_num [OF this]
    show "\<exists>z. cell_div (cell_of r a) (replace0 (cell_of r b)) = Inr z" by blast
  qed
  then obtain vs where vs: "zipE cell_div (map (\<lambda>r. cell_of r a) rs)
          (map replace0 (map (\<lambda>r. cell_of r b) rs)) = Inr vs" by (auto simp: comp_def)
  have len: "length (map (\<lambda>r. cell_of r a) rs) = length (map replace0 (map (\<lambda>r. cell_of r b) rs))"
    by simp
  from zipE_Inr [OF vs len] have "length vs = length rs"
    and "\<forall>i<length rs. cell_div (cell_of (rs ! i) a) (replace0 (cell_of (rs ! i) b)) = Inr (vs ! i)"
    by simp_all
  then have "\<forall>i<length vs. is_num (vs ! i)"
    using cell_div_Inr_num by metis
  then have "list_all is_num vs" by (simp add: list_all_length)
  with vs show ?thesis by blast
qed

lemma mul100_column_total:
  assumes "list_all is_num qs"
  shows "\<exists>vs. mapE cell_mul100 qs = Inr vs"
  by (rule mapE_total) (use assms cell_mul100_num in \<open>auto simp: list_all_iff\<close>)

lemma zipE_num_total:
  assumes len: "length xs = length ys"
    and xs: "list_all is_num xs" and ys: "list_all is_num ys"
    and f: "\<And>a b. is_num a \<Longrightarrow> is_num b \<Longrightarrow> \<exists>x. f a (g b) = Inr (Num x)"
  shows "\<exists>vs. zipE f xs (map g ys) = Inr vs \<and> list_all is_num vs"
proof -
  have "\<exists>vs. zipE f xs (map g ys) = Inr vs"
  proof (rule zipE_total)
    show "length xs = length (map g ys)" using len by simp
  next
    fix i assume i: "i < length xs"
    then have "is_num (xs ! i)" "is_num (ys ! i)"
      using xs ys len by (simp_all add: list_all_length)
    from f [OF this] i len show "\<exists>z. f (xs ! i) (map g ys ! i) = Inr z" by auto
  qed
  then obtain vs where vs: "zipE f xs (map g ys) = Inr vs" by blast
  have "length xs = length (map g ys)" using len by simp
  from zipE_Inr [OF vs this] have l: "length vs = length xs"
    and n: "\<forall>i<length xs. f (xs ! i) (map g ys ! i) = Inr (vs ! i)" by simp_all
  have "list_all is_num vs"
    unfolding list_all_length
  proof (intro allI impI)
    fix i assume i: "i < length vs"
    then have "is_num (xs ! i)" "is_num (ys ! i)"
      using xs ys len l by (simp_all add: list_all_length)
    from f [OF this] obtain x where "f (xs ! i) (g (ys ! i)) = Inr (Num x)" by blast
    moreover have "f (xs ! i) (g (ys ! i)) = Inr (vs ! i)" using n i l len by simp
    ultimately show "is_num (vs ! i)" by simp
  qed
  with vs show ?thesis by blast
qed

lemma column_num: "\<forall>r\<in>set rs. is_num (cell_of r c) \<Longrightarrow> list_all is_num (map (\<lambda>r. cell_of r c) rs)"
  by (simp add: list_all_iff)

lemma set_engagement_rate_total:
  assumes "''engagement'' \<in> set (columns df)" "''reach'' \<in> set (columns df)"
    and "\<forall>r\<in>set (rows df). is_num (cell_of r ''engagement'')"
    and "\<forall>r\<in>set (rows df). is_num (cell_of r ''reach'')"
  shows "\<exists>df'. set_engagement_rate df = Inr df'"
proof -
  from zipE_num_total [of "map (\<lambda>r. cell_of r ''engagement'') (rows df)"
      "map (\<lambda>r. cell_of r ''reach'') (rows df)" cell_div replace0]
    column_num [OF assms(3)] column_num [OF assms(4)] cell_div_num
  obtain qs where q: "zipE cell_div (map (\<lambda>r. cell_of r ''engagement'') (rows df))
      (map replace0 (map (\<lambda>r. cell_of r ''reach'') (rows df))) = Inr qs"
    and n: "list_all is_num qs" by auto
  from mul100_column_total [OF n] obtain vs where "mapE cell_mul100 qs = Inr vs" by blast
  with q assms(1,2) show ?thesis
    by (simp add: set_engagement_rate_def getitem_def bindE_def)
qed

lemma set_roas_total:
  assumes "''revenue'' \<in> set (columns df)" "''total_payout'' \<in> set (columns df)"
    and "\<forall>r\<in>set (rows df). is_num (cell_of r ''revenue'')"
    and "\<forall>r\<in>set (rows df). is_num (cell_of r ''total_payout'')"
  shows "\<exists>df'. set_roas df = Inr df'"
proof -
  from zipE_num_total [of "map (\<lambda>r. cell_of r ''revenue'') (rows df)"
      "map (\<lambda>r. cell_of r ''total_payout'') (rows df)" cell_div replace0]
    column_num [OF assms(3)] column_num [OF assms(4)] cell_div_num
  obtain vs where "zipE cell_div (map (\<lambda>r. cell_of r ''revenue'') (rows df))
      (map replace0 (map (\<lambda>r. cell_of r ''total_payout'') (rows df))) = Inr vs" by auto
  with assms(1,2) show ?thesis
    by (simp add: set_roas_def getitem_def bindE_def)
qed

lemma set_average_order_value_total:
  assumes "''revenue'' \<in> set (columns df)" "''orders'' \<in> set (columns df)"
    and "\<forall>r\<in>set (rows df). is_num (cell_of r ''revenue'')"
    and "\<forall>r\<in>set (rows df). is_num (cell_of r ''orders'')"
  shows "\<exists>df'. set_average_order_value df = Inr df'"
proof -
  from zipE_num_total [of "map (\<lambda>r. cell_of r ''revenue'') (rows df)"
      "map (\<lambda>r. cell_of r ''orders'') (rows df)" cell_div replace0]
    column_num [OF assms(3)] column_num [OF assms(4)] cell_div_num
  obtain vs where "zipE cell_div (map (\<lambda>r. cell_of r ''revenue'') (rows df))
      (map replace0 (map (\<lambda>r. cell_of r ''orders'') (rows df))) = Inr vs" by auto
  with assms(1,2) show ?thesis
    by (simp add: set_average_order_value_def getitem_def bindE_def)
qed

lemma set_roi_percentage_total:
  assumes "''revenue'' \<in> set (columns df)" "''total_payout'' \<in> set (columns df)"
    and "\<forall>r\<in>set (rows df). is_num (cell_of r ''revenue'')"
    and "\<forall>r\<in>set (rows df). is_num (cell_of r ''total_payout'')"
  shows "\<exists>df'. set_roi_percentage df = Inr df'"
proof -
  let ?r = "map (\<lambda>r. cell_of r ''revenue'') (rows df)"
  let ?p = "map (\<lambda>r. cell_of r ''total_payout'') (rows df)"
  from zipE_num_total [of ?r ?p cell_sub "\<lambda>c. c"]
    column_num [OF assms(3)] column_num [OF assms(4)] cell_sub_num
  obtain ns where s: "zipE cell_sub ?r ?p = Inr ns" and n: "list_all is_num ns" by auto
  have "length ?r = length ?p" by simp
  from zipE_Inr [OF s this] have "length ns = length ?p" by simp
  from zipE_num_total [OF this n column_num [OF assms(4)], of cell_div replace0] cell_div_num
  obtain qs where q: "zipE cell_div ns (map replace0 ?p) = Inr qs"
    and nq: "list_all is_num qs" by auto
  from mul100_column_total [OF nq] obtain vs where "mapE cell_mul100 qs = Inr vs" by blast
  with s q assms(1,2) show ?thesis
    by (simp add: set_roi_percentage_def getitem_def bindE_def)
qed

lemma set_performance_category_total:
  assumes "''roi_percentage'' \<in> set (columns df)"
    and "\<forall>r\<in>set (rows df). is_num (cell_of r ''roi_percentage'')"
  shows "\<exists>df'. set_performance_category df = Inr df'"
proof -
  have "\<exists>vs. mapE performance_category (map (\<lambda>r. cell_of r ''roi_percentage'') (rows df)) = Inr vs"
    by (rule mapE_total) (use assms(2) performance_category_num in \<open>auto\<close>)
  then show ?thesis using assms(1)
    by (auto simp: set_performance_category_def getitem_def bindE_def)
qed

lemma numeric_keeps:
  assumes len: "length (rows df') = length (rows df)"
    and upd: "\<And>i. i < length (rows df) \<Longrightarrow> \<exists>v. rows df' ! i = (rows df ! i)(c \<mapsto> v)"
    and ne: "c \<notin> set [''likes'', ''comments'', ''reach'', ''revenue'', ''total_payout'', ''orders'']"
    and N: "\<forall>r\<in>set (rows df). numeric_row r"
  shows "\<forall>r\<in>set (rows df'). numeric_row r"
proof -
  have "\<forall>r\<in>set (rows df'). is_num (cell_of r c')"
    if "c' \<in> set [''likes'', ''comments'', ''reach'', ''revenue'', ''total_payout'', ''orders'']"
    for c'
  proof (rule upd_keeps [OF len upd])
    show "c' \<noteq> c" using that ne by auto
    show "\<forall>r\<in>set (rows df). is_num (cell_of r c')"
      using N that by (auto simp: numeric_row_def)
  qed simp
  then show ?thesis by (simp add: numeric_row_def)
qed

lemma clean_and_engineer_total:
  assumes wf: "well_formed parse df"
  shows "\<exists>df'. clean_and_engineer parse df = Inr df'"
proof -
  from wf have c0: "''date'' \<in> set (columns df)" "''likes'' \<in> set (columns df)"
    "''comments'' \<in> set (columns df)" "''reach'' \<in> set (columns df)"
    "''revenue'' \<in> set (columns df)" "''total_payout'' \<in> set (columns df)"
    "''orders'' \<in> set (columns df)"
    and n0: "\<forall>r\<in>set (rows df). numeric_row r"
    and d0: "\<forall>r\<in>set (rows df). is_ok (to_datetime_cell parse (cell_of r ''date''))"
    by (simp_all add: well_formed_def list_all_iff)
  from set_date_total [OF c0(1) d0] obtain df1 where s1: "set_date parse df = Inr df1" by blast
  note f1 = set_date_Inr [OF s1]
  have n1: "\<forall>r\<in>set (rows df1). numeric_row r"
    by (rule numeric_keeps [OF f1(1) _ _ n0, of "''date''"]) (use f1(3) in \<open>blast, simp\<close>)
  have "\<exists>df2. set_engagement df1 = Inr df2"
    by (rule set_engagement_total) (use c0 f1(2) n1 in \<open>auto simp: numeric_row_def\<close>)
  then obtain df2 where s2: "set_engagement df1 = Inr df2" by blast
  note f2 = set_engagement_Inr [OF s2]
  have n2: "\<forall>r\<in>set (rows df2). numeric_row r"
    by (rule numeric_keeps [OF f2(1) _ _ n1, of "''engagement''"]) (use f2(3) in \<open>blast, simp\<close>)
  have e2: "\<forall>r\<in>set (rows df2). is_num (cell_of r ''engagement'')"
  proof (rule upd_new [OF f2(1)])
    fix i assume i: "i < length (rows df1)"
    from f2(3) [OF i] obtain v where v: "rows df2 ! i = (rows df1 ! i)(''engagement'' \<mapsto> v)"
      and a: "cell_add (cell_of (rows df1 ! i) ''likes'') (cell_of (rows df1 ! i) ''comments'') = Inr v"
      by blast
    have "is_num (cell_of (rows df1 ! i) ''likes'')"
      using n1 i by (auto simp: numeric_row_def)
    from cell_add_Inr_num [OF a this] v
    show "\<exists>v. rows df2 ! i = (rows df1 ! i)(''engagement'' \<mapsto> v) \<and> is_num v" by blast
  qed
  have "\<exists>df3. set_engagement_rate df2 = Inr df3"
    by (rule set_engagement_rate_total)
      (use c0 f1(2) f2(2) n2 e2 in \<open>auto simp: numeric_row_def\<close>)
  then obtain df3 where s3: "set_engagement_rate df2 = Inr df3" by blast
  note f3 = set_engagement_rate_Inr [OF s3]
  have n3: "\<forall>r\<in>set (rows df3). numeric_row r"
    by (rule numeric_keeps [OF f3(1) _ _ n2, of "''engagement_rate''"])
      (use f3(3) in \<open>blast, simp\<close>)
  have "\<exists>df4. set_roas df3 = Inr df4"
    by (rule set_roas_total)
      (use c0 f1(2) f2(2) f3(2) n3 in \<open>auto simp: numeric_row_def\<close>)
  then obtain df4 where s4: "set_roas df3 = Inr df4" by blast
  note f4 = set_roas_Inr [OF s4]
  have n4: "\<forall>r\<in>set (rows df4). numeric_row r"
    by (rule numeric_keeps [OF f4(1) _ _ n3, of "''roas''"]) (use f4(3) in \<open>blast, simp\<close>)
  have "\<exists>df5. set_roi_percentage df4 = Inr df5"
    by (rule set_roi_percentage_total)
      (use c0 f1(2) f2(2) f3(2) f4(2) n4 in \<open>auto simp: numeric_row_def\<close>)
  then obtain df5 where s5: "set_roi_percentage df4 = Inr df5" by blast
  note f5 = set_roi_percentage_Inr [OF s5]
  have n5: "\<forall>r\<in>set (rows df5). numeric_row r"
    by (rule numeric_keeps [OF f5(1) _ _ n4, of "''roi_percentage''"])
      (use f5(3) in \<open>blast, simp\<close>)
  have r5: "\<forall>r\<in>set (rows df5). is_num (cell_of r ''roi_percentage'')"
  proof (rule upd_new [OF f5(1)])
    fix i assume i: "i < length (rows df4)"
    from f5(3) [OF i] obtain n q v where
      v: "rows df5 ! i = (rows df4 ! i)(''roi_percentage'' \<mapsto> v)"
      and q: "cell_div n (replace0 (cell_of (rows df4 ! i) ''total_payout'')) = Inr q"
      and m: "cell_mul100 q = Inr v"
      by blast
    from cell_mul100_Inr_num [OF m cell_div_Inr_num [OF q]] v
    show "\<exists>v. rows df5 ! i = (rows df4 ! i)(''roi_percentage'' \<mapsto> v) \<and> is_num v" by blast
  qed
  have "\<exists>df6. set_average_order_value df5 = Inr df6"
    by (rule set_average_order_value_total)
      (use c0 f1(2) f2(2) f3(2) f4(2) f5(2) n5 in \<open>auto simp: numeric_row_def\<close>)
  then obtain df6 where s6: "set_average_order_value df5 = Inr df6" by blast
  note f6 = set_average_order_value_Inr [OF s6]
  have r6: "\<forall>r\<in>set (rows df6). is_num (cell_of r ''roi_percentage'')"
    by (rule upd_keeps [OF f6(1) _ _ r5, of "''average_order_value''"])
      (use f6(3) in \<open>blast, simp\<close>)
  have "\<exists>df7. set_performance_category df6 = Inr df7"
    by (rule set_performance_category_total) (use f5(2) f6(2) r6 in \<open>auto\<close>)
  then obtain df7 where s7: "set_performance_category df6 = Inr df7" by blast
  show ?thesis
    using s1 s2 s3 s4 s5 s6 s7 by (simp add: clean_and_engineer_def bindE_def)
qed

lemma clean_and_engineer_length:
  assumes ok: "clean_and_engineer parse df = Inr df'"
  shows "length (rows df') = length (rows df)"
proof -
  from ok obtain df1 df2 df3 df4 df5 df6 where
    s1: "set_date parse df = Inr df1" and s2: "set_engagement df1 = Inr df2" and
    s3: "set_engagement_rate df2 = Inr df3" and s4: "set_roas df3 = Inr df4" and
    s5: "set_roi_percentage df4 = Inr df5" and s6: "set_average_order_value df5 = Inr df6" and
    s7: "set_performance_category df6 = Inr df'"
    by (auto simp: clean_and_engineer_def bindE_Inr)
  show ?thesis
    using set_date_Inr(1) [OF s1] set_engagement_Inr(1) [OF s2] set_engagement_rate_Inr(1) [OF s3]
      set_roas_Inr(1) [OF s4] set_roi_percentage_Inr(1) [OF s5]
      set_average_order_value_Inr(1) [OF s6] set_performance_category_Inr(1) [OF s7]
    by simp
qed

lemma well_formed_zero_frame: "well_formed no_parse zero_frame"
  by (simp add: well_formed_def zero_frame_def required_columns_def campaign_row_def
      numeric_row_def cell_of_def)

lemma well_formed_spec_example_frame: "well_formed no_parse spec_example_frame"
  by (simp add: well_formed_def spec_example_frame_def required_columns_def campaign_row_def
      numeric_row_def cell_of_def)

lemma fdiv_nan: "fdiv x NaN = NaN"
  by (cases x) simp_all

lemma cell_div_nan: "cell_div a (Num NaN) = Inr q \<Longrightarrow> q = Num NaN"
  by (cases a) (auto simp: fdiv_nan)


lemma performance_category_bands:
  "performance_category (Num (Fin x)) = Inr c \<Longrightarrow>
     (c = Txt ''High Performer'' \<longleftrightarrow> 200 \<le> x) \<and>
     (c = Txt ''Good Performer'' \<longleftrightarrow> 100 \<le> x \<and> x < 200) \<and>
     (c = Txt ''Average Performer'' \<longleftrightarrow> 0 \<le> x \<and> x < 100) \<and>
     (c = Txt ''Poor Performer'' \<longleftrightarrow> x < 0)"
  by (auto split: if_splits)

lemma performance_category_range:
  "performance_category a = Inr c \<Longrightarrow>
     c \<in> {Txt ''High Performer'', Txt ''Good Performer'', Txt ''Average Performer'',
          Txt ''Poor Performer''}"
  by (cases a) (auto split: if_splits)

section \<open>Lemmas about the filter\<close>

lemma clean_and_engineer_columns:
  assumes ok: "clean_and_engineer parse df = Inr df'"
  shows "set (columns df') = set (columns df) \<union>
           {''date'', ''engagement'', ''engagement_rate'', ''roas'', ''roi_percentage'',
            ''average_order_value'', ''performance_category''}"
proof -
  from ok obtain df1 df2 df3 df4 df5 df6 where
    s1: "set_date parse df = Inr df1" and s2: "set_engagement df1 = Inr df2" and
    s3: "set_engagement_rate df2 = Inr df3" and s4: "set_roas df3 = Inr df4" and
    s5: "set_roi_percentage df4 = Inr df5" and s6: "set_average_order_value df5 = Inr df6" and
    s7: "set_performance_category df6 = Inr df'"
    by (auto simp: clean_and_engineer_def bindE_Inr)
  have "set (columns df') =
      insert ''performance_category'' (insert ''average_order_value''
        (insert ''roi_percentage'' (insert ''roas'' (insert ''engagement_rate''
          (insert ''engagement'' (insert ''date'' (set (columns df))))))))"
    by (simp only: set_performance_category_Inr(2) [OF s7] set_average_order_value_Inr(2) [OF s6]
      set_roi_percentage_Inr(2) [OF s5] set_roas_Inr(2) [OF s4]
      set_engagement_rate_Inr(2) [OF s3] set_engagement_Inr(2) [OF s2] set_date_Inr(2) [OF s1])
  then show ?thesis by auto
qed

lemma to_datetime_cell_is_datetime: "to_datetime_cell parse c = Inr d \<Longrightarrow> is_datetime d"
  by (induction parse c rule: to_datetime_cell.induct) (auto split: option.splits)

lemma clean_and_engineer_filterable:
  assumes ok: "clean_and_engineer parse df = Inr df'"
    and cols: "list_all (\<lambda>c. c \<in> set (columns df))
                 [''campaign'', ''platform'', ''category'', ''gender'']"
  shows "filterable df' S"
proof -
  have len: "length (rows df') = length (rows df)" by (rule clean_and_engineer_length [OF ok])
  have "is_datetime (cell_of r ''date'')" if "r \<in> set (rows df')" for r
  proof -
    from that obtain i where i: "i < length (rows df)" and r: "r = rows df' ! i"
      using len by (auto simp: in_set_conv_nth)
    from clean_and_engineer_row [OF ok i]
    obtain d e q er ro n q' rp ao pc where
      r': "rows df' ! i = (rows df ! i)(''date'' \<mapsto> d, ''engagement'' \<mapsto> e,
         ''engagement_rate'' \<mapsto> er, ''roas'' \<mapsto> ro, ''roi_percentage'' \<mapsto> rp,
         ''average_order_value'' \<mapsto> ao, ''performance_category'' \<mapsto> pc)"
      and d: "to_datetime_cell parse (cell_of (rows df ! i) ''date'') = Inr d"
      and q: "cell_mul100 q = Inr er"
      and n: "cell_div n (replace0 (cell_of (rows df ! i) ''total_payout'')) = Inr q'"
      by blast
    have "cell_of r ''date'' = d" by (simp add: r r' cell_of_def)
    with to_datetime_cell_is_datetime [OF d] show ?thesis by simp
  qed
  then show ?thesis
    using cols by (simp add: filterable_def clean_and_engineer_columns [OF ok] list_all_iff)
qed


lemma getitem_mask_map:
  "getitem_mask df (map P (rows df)) = df\<lparr>rows := filter P (rows df)\<rparr>"
proof -
  have "map fst (filter snd (zip rs (map P rs))) = filter P rs" for rs :: "row list"
    by (induction rs) simp_all
  then show ?thesis by (simp add: getitem_mask_def)
qed

lemma mask_and_map: "mask_and (map P rs) (map Q rs) = map (\<lambda>r. P r \<and> Q r) rs"
  by (induction rs) (simp_all add: mask_and_def)

lemma flt_filterable:
  assumes "filterable df S"
  shows "flt df S = Inr (map (keep S) (rows df))"
proof -
  from assms have c: "''date'' \<in> set (columns df)" "''campaign'' \<in> set (columns df)"
    "''platform'' \<in> set (columns df)" "''category'' \<in> set (columns df)"
    "''gender'' \<in> set (columns df)"
    and b: "perf_band S = ''All'' \<or> ''performance_category'' \<in> set (columns df)"
    and d: "list_all is_datetime (map (\<lambda>r. cell_of r ''date'') (rows df))"
    by (simp_all add: filterable_def list_all_iff)
  show ?thesis
    using c b d
    by (auto simp: flt_def getitem_def bindE_def dt_date_def between_def isin_def eq_col_def
        mask_and_map keep_def Let_def)
qed

lemma flt_Inr_filterable:
  assumes "flt df S = Inr m"
  shows "filterable df S"
  using assms
  by (auto simp: flt_def getitem_def bindE_def dt_date_def filterable_def Let_def list_all_iff
      split: if_splits)

lemma data_filterable:
  "filterable df S \<Longrightarrow> data df S = Inr (df\<lparr>rows := filter (keep S) (rows df)\<rparr>)"
  by (simp add: data_def flt_filterable bindE_def getitem_mask_map)

lemma data_not_filterable:
  "\<not> filterable df S \<Longrightarrow> \<exists>e. data df S = Inl e"
  using flt_Inr_filterable [of df S] by (cases "flt df S") (auto simp: data_def bindE_def)

lemma filterable_view:
  "filterable df S \<Longrightarrow> filterable (df\<lparr>rows := filter P (rows df)\<rparr>) S"
  by (auto simp: filterable_def list_all_iff)

lemma isin_cell_empty: "\<not> isin_cell [] c"
  by (cases c) simp_all

section \<open>Lemmas about the session\<close>

lemma filter_step_Inr:
  assumes "filter_step S st = Inr st1"
  shows "df_ref st1 = df_ref st" and "data_ref st1 = length (heap st)"
    and "\<exists>v. data (heap st ! df_ref st) S = Inr v \<and> heap st1 = heap st @ [v]"
  using assms by (auto simp: filter_step_def data_def bindE_Inr)

lemma trend_step_Inr:
  assumes "trend_step st = Inr st1"
  shows "df_ref st1 = df_ref st" and "data_ref st1 = data_ref st"
    and "length (heap st1) = Suc (length (heap st))"
    and "take (length (heap st)) (heap st1) = heap st"
  using assms by (auto simp: trend_step_def bindE_Inr Let_def)

lemma year_month_step_Inr:
  assumes "year_month_step st = Inr st1"
  shows "df_ref st1 = df_ref st" and "data_ref st1 = data_ref st"
    and "length (heap st1) = length (heap st)"
    and "\<And>a. a \<noteq> data_ref st \<Longrightarrow> heap st1 ! a = heap st ! a"
  using assms by (auto simp: year_month_step_def bindE_Inr)

lemma to_period_M_filterable:
  "filterable f S \<Longrightarrow> \<exists>v. to_period_M f = Inr v"
  by (auto simp: to_period_M_def filterable_def getitem_def dt_date_def bindE_def list_all_iff)

lemma script_total:
  assumes valid: "df_ref st < length (heap st)" and f: "filterable (heap st ! df_ref st) S"
  shows "\<exists>st'. script S st = Inr st'"
proof -
  let ?v = "(heap st ! df_ref st)\<lparr>rows := filter (keep S) (rows (heap st ! df_ref st))\<rparr>"
  have fv: "filterable ?v S" by (rule filterable_view [OF f])
  from to_period_M_filterable [OF fv] obtain m where m: "to_period_M ?v = Inr m" by blast
  have fs: "filter_step S st = Inr (st\<lparr>heap := heap st @ [?v], data_ref := length (heap st)\<rparr>)"
    by (simp add: filter_step_def flt_filterable [OF f] bindE_def getitem_mask_map)
  show ?thesis
    using to_period_M_filterable [OF fv] m
    by (auto simp: script_def fs bindE_def trend_step_def year_month_step_def Let_def
        nth_append split: sum.splits)
qed

section \<open>Lemmas about the top and bottom rows\<close>

lemma filter_sort_key_refine:
  assumes "\<And>x. Q x \<Longrightarrow> f x = k"
  shows "filter Q (sort_key f xs) = filter Q xs"
proof -
  have "filter Q ys = filter Q (filter (\<lambda>y. f y = k) ys)" for ys
    using assms by (induction ys) auto
  then have "filter Q (sort_key f xs) = filter Q (filter (\<lambda>y. f y = k) (sort_key f xs))"
    by blast
  also have "\<dots> = filter Q (filter (\<lambda>y. f y = k) xs)" by (simp only: sort_key_stable)
  also have "\<dots> = filter Q xs"
    using assms by (induction xs) auto
  finally show ?thesis .
qed

lemma filter_none: "(\<And>x. x \<in> set xs \<Longrightarrow> \<not> Q x) \<Longrightarrow> filter Q xs = []"
  by (induction xs) auto

lemma filter_cell_order:
  "filter (\<lambda>r. cell_of r c = k) (ordered_rows key c rs) = filter (\<lambda>r. cell_of r c = k) rs"
proof (cases "is_nan k")
  case True
  have "filter (\<lambda>r. cell_of r c = k)
          (sort_key (\<lambda>r. key (cell_of r c)) (filter (\<lambda>r. \<not> is_nan (cell_of r c)) rs)) = []"
    by (rule filter_none) (use True in auto)
  moreover have "filter (\<lambda>r. cell_of r c = k) (filter (\<lambda>r. is_nan (cell_of r c)) rs)
      = filter (\<lambda>r. cell_of r c = k) rs"
    using True by (induction rs) auto
  ultimately show ?thesis by (simp add: ordered_rows_def)
next
  case False
  have "filter (\<lambda>r. cell_of r c = k)
          (sort_key (\<lambda>r. key (cell_of r c)) (filter (\<lambda>r. \<not> is_nan (cell_of r c)) rs))
        = filter (\<lambda>r. cell_of r c = k) (filter (\<lambda>r. \<not> is_nan (cell_of r c)) rs)"
    by (rule filter_sort_key_refine [where k = "key k"]) simp
  also have "\<dots> = filter (\<lambda>r. cell_of r c = k) rs"
    using False by (induction rs) auto
  finally have a: "filter (\<lambda>r. cell_of r c = k)
          (sort_key (\<lambda>r. key (cell_of r c)) (filter (\<lambda>r. \<not> is_nan (cell_of r c)) rs))
        = filter (\<lambda>r. cell_of r c = k) rs" .
  have "filter (\<lambda>r. cell_of r c = k) (filter (\<lambda>r. is_nan (cell_of r c)) rs) = []"
    by (rule filter_none) (use False in auto)
  with a show ?thesis by (simp add: ordered_rows_def)
qed

lemma filter_take_prefix: "\<exists>zs. filter Q xs = filter Q (take n xs) @ zs"
proof -
  have "filter Q xs = filter Q (take n xs @ drop n xs)" by simp
  also have "\<dots> = filter Q (take n xs) @ filter Q (drop n xs)" by (simp only: filter_append)
  finally show ?thesis by blast
qed

lemma select_n_Inr:
  assumes "select_n key n c df = Inr res"
  shows "rows res = take n (ordered_rows key c (rows df))"
    and "columns res = columns df" and "c \<in> set (columns df)"
  using assms by (auto simp: select_n_def bindE_Inr getitem_def split: if_splits)

lemma select_n_ties:
  assumes "select_n key n c df = Inr res"
  shows "\<exists>zs. filter (\<lambda>r. cell_of r c = k) (rows df)
           = filter (\<lambda>r. cell_of r c = k) (rows res) @ zs"
  unfolding select_n_Inr(1) [OF assms]
  using filter_take_prefix [of "\<lambda>r. cell_of r c = k" "ordered_rows key c (rows df)" n]
  by (simp only: filter_cell_order)

lemma length_ordered_rows: "length (ordered_rows key c rs) = length rs"
  using sum_length_filter_compl [of "\<lambda>r. is_nan (cell_of r c)" rs]
  by (simp add: ordered_rows_def)

lemma set_ordered_rows: "set (ordered_rows key c rs) = set rs"
  by (auto simp: ordered_rows_def)

lemma select_n_length:
  assumes "select_n key n c df = Inr res"
  shows "length (rows res) = min n (length (rows df))"
  unfolding select_n_Inr(1) [OF assms] by (simp add: length_ordered_rows)

lemma ordered_rows_sorted:
  assumes ij: "i < j" "j < length (ordered_rows key c rs)"
    and nn: "\<not> is_nan (cell_of (ordered_rows key c rs ! j) c)"
  shows "\<not> is_nan (cell_of (ordered_rows key c rs ! i) c) \<and>
         key (cell_of (ordered_rows key c rs ! i) c) \<le> key (cell_of (ordered_rows key c rs ! j) c)"
proof -
  let ?f = "\<lambda>r. key (cell_of r c)"
  let ?s = "sort_key ?f (filter (\<lambda>r. \<not> is_nan (cell_of r c)) rs)"
  let ?t = "filter (\<lambda>r. is_nan (cell_of r c)) rs"
  have full: "ordered_rows key c rs = ?s @ ?t" by (simp add: ordered_rows_def)
  have j: "j < length ?s"
  proof (rule ccontr)
    assume "\<not> j < length ?s"
    then have "ordered_rows key c rs ! j = ?t ! (j - length ?s)" and "j - length ?s < length ?t"
      using ij(2) by (simp_all add: full nth_append)
    then have "ordered_rows key c rs ! j \<in> set ?t" by (metis nth_mem)
    then show False using nn by simp
  qed
  then have i: "i < length ?s" using ij(1) by simp
  have fi: "ordered_rows key c rs ! i = ?s ! i" and fj: "ordered_rows key c rs ! j = ?s ! j"
    using i j by (simp_all add: full nth_append)
  have "?s ! i \<in> set ?s" using i by (rule nth_mem)
  then have a: "\<not> is_nan (cell_of (?s ! i) c)" by simp
  have "sorted (map ?f ?s)" by (rule sorted_sort_key)
  then have "map ?f ?s ! i \<le> map ?f ?s ! j"
    using ij(1) j by (simp add: sorted_iff_nth_mono)
  then have "?f (?s ! i) \<le> ?f (?s ! j)" using i j by simp
  with a show ?thesis by (simp add: fi fj)
qed

lemma select_n_sorted:
  assumes ok: "select_n key n c df = Inr res"
    and ij: "i < j" "j < length (rows res)"
    and nn: "\<not> is_nan (cell_of (rows res ! j) c)"
  shows "\<not> is_nan (cell_of (rows res ! i) c) \<and>
         key (cell_of (rows res ! i) c) \<le> key (cell_of (rows res ! j) c)"
proof -
  have r: "rows res = take n (ordered_rows key c (rows df))" by (rule select_n_Inr(1) [OF ok])
  have j: "j < n" "j < length (ordered_rows key c (rows df))" using ij(2) r by simp_all
  have e: "rows res ! j = ordered_rows key c (rows df) ! j"
    "rows res ! i = ordered_rows key c (rows df) ! i"
    using j ij(1) r by simp_all
  from ordered_rows_sorted [OF ij(1) j(2)] nn show ?thesis by (simp add: e)
qed

lemma select_n_best:
  assumes ok: "select_n key n c df = Inr res"
    and r: "r \<in> set (rows df)" and t: "t \<in> set (rows res)"
    and nr: "\<not> is_nan (cell_of r c)"
    and less: "is_nan (cell_of t c) \<or> key (cell_of r c) < key (cell_of t c)"
  shows "r \<in> set (rows res)"
proof -
  let ?o = "ordered_rows key c (rows df)"
  have rs: "rows res = take n ?o" by (rule select_n_Inr(1) [OF ok])
  from t obtain j where j: "j < length (rows res)" and tj: "t = rows res ! j"
    by (auto simp: in_set_conv_nth)
  then have jn: "j < n" and jo: "j < length ?o" and tj': "t = ?o ! j" using rs by simp_all
  from r have "r \<in> set ?o" by (simp add: set_ordered_rows)
  then obtain i where i: "i < length ?o" and ri: "r = ?o ! i" by (auto simp: in_set_conv_nth)
  have "i < n"
  proof (rule ccontr)
    assume "\<not> i < n"
    then have "j < i" using jn by simp
    from ordered_rows_sorted [OF this i] nr ri tj'
    have "\<not> is_nan (cell_of t c)" and "key (cell_of t c) \<le> key (cell_of r c)" by simp_all
    with less show False by auto
  qed
  then have "?o ! i \<in> set (take n ?o)" using i by (auto simp: in_set_conv_nth)
  then show ?thesis by (simp add: rs ri)
qed

lemma desc_key_Fin: "desc_key (Num (Fin a)) \<le> desc_key (Num (Fin b)) \<longleftrightarrow> b \<le> a"
  "desc_key (Num (Fin a)) < desc_key (Num (Fin b)) \<longleftrightarrow> b < a"
  by auto

lemma asc_key_Fin: "asc_key (Num (Fin a)) \<le> asc_key (Num (Fin b)) \<longleftrightarrow> a \<le> b"
  "asc_key (Num (Fin a)) < asc_key (Num (Fin b)) \<longleftrightarrow> a < b"
  by auto

lemma top3_value:
  "then_getitem (nlargest 3 ''revenue'' top3_example) ''name''
     = Inr [Txt ''B'', Txt ''C'', Txt ''A'']"
  by (simp add: then_getitem_def nlargest_def select_n_def ordered_rows_def getitem_def
      bindE_def top3_example_def cell_of_def)

lemma top3_runs:
  "\<exists>hi lo. nlargest 3 ''revenue'' top3_example = Inr hi \<and>
           nsmallest 3 ''revenue'' top3_example = Inr lo"
  by (simp add: nlargest_def nsmallest_def select_n_def getitem_def bindE_def top3_example_def
      cell_of_def)

section \<open>Lemmas about the aggregates\<close>

lemma foldl_fadd_Fin: "foldl fadd (Fin a) (map (\<lambda>x. Fin (g x)) xs) = Fin (a + sum_list (map g xs))"
  by (induction xs arbitrary: a) (simp_all add: add.assoc)

lemma sum_list_zero: "(\<And>x. x \<in> set xs \<Longrightarrow> f x = (0::real)) \<Longrightarrow> sum_list (map f xs) = 0"
  by (induction xs) simp_all

lemma mapE_map: "mapE f (map g xs) = mapE (\<lambda>x. f (g x)) xs"
  by (induction xs) (simp_all split: sum.splits)

lemma is_fin_conv: "is_fin c \<longleftrightarrow> c = Num (Fin (fin_of c))"
  by (induction c rule: is_fin.induct) simp_all

lemma column_sum_finite:
  assumes c: "c \<in> set (columns v)" and fin: "list_all (\<lambda>r. is_fin (cell_of r c)) (rows v)"
  shows "column_sum v c = Inr (Fin (sum_list (map (\<lambda>r. fin_of (cell_of r c)) (rows v))))"
proof -
  let ?ys = "map (\<lambda>r. Fin (fin_of (cell_of r c))) (rows v)"
  have "mapE (\<lambda>r. fl_of (cell_of r c)) rs = Inr (map (\<lambda>r. Fin (fin_of (cell_of r c))) rs)"
    if "list_all (\<lambda>r. is_fin (cell_of r c)) rs" for rs
    using that
  proof (induction rs)
    case Nil
    then show ?case by simp
  next
    case (Cons r rs)
    then have "is_fin (cell_of r c)" by simp
    then have "cell_of r c = Num (Fin (fin_of (cell_of r c)))" by (simp add: is_fin_conv [symmetric])
    then have "fl_of (cell_of r c) = Inr (Fin (fin_of (cell_of r c)))" by (metis fl_of.simps(1))
    with Cons show ?case by simp
  qed
  from this [OF fin] have m: "mapE fl_of (map (\<lambda>r. cell_of r c) (rows v)) = Inr ?ys"
    by (simp add: mapE_map)
  have flt: "filter (\<lambda>x. x \<noteq> NaN) ?ys = ?ys"
    by (induction "rows v") simp_all
  have "series_sum (map (\<lambda>r. cell_of r c) (rows v)) = Inr (foldl fadd (Fin 0) ?ys)"
    by (simp only: series_sum_def m bindE_def sum.case flt)
  also have "foldl fadd (Fin 0) ?ys = Fin (sum_list (map (\<lambda>r. fin_of (cell_of r c)) (rows v)))"
    by (simp only: foldl_fadd_Fin) simp
  finally show ?thesis
    using c by (simp add: column_sum_def getitem_def bindE_def)
qed

lemma sum_all_zero:
  assumes "all_zero v c"
  shows "sum_list (map (\<lambda>r. fin_of (cell_of r c)) (rows v)) = 0"
  by (rule sum_list_zero) (use assms in \<open>auto simp: all_zero_def list_all_iff\<close>)

lemma finite_view_sums:
  assumes "finite_view v" and "c \<in> set [''reach'', ''engagement'', ''orders'', ''revenue'', ''total_payout'']"
  shows "column_sum v c = Inr (Fin (sum_list (map (\<lambda>r. fin_of (cell_of r c)) (rows v))))"
  by (rule column_sum_finite) (use assms in \<open>auto simp: finite_view_def\<close>)

lemma py_truediv_zero: "py_truediv a 0 = Inl ZeroDivisionError"
  by (simp add: py_truediv_def)

lemma funnel_zero_reach:
  assumes f: "finite_view v" and z: "all_zero v ''reach''"
  shows "funnel_metrics v = Inl ZeroDivisionError"
proof -
  note s = finite_view_sums [OF f]
  have "column_sum v ''reach'' = Inr (Fin 0)"
    using s [of "''reach''"] sum_all_zero [OF z] by simp
  then show ?thesis
    using s [of "''engagement''"] s [of "''orders''"] s [of "''revenue''"] s [of "''total_payout''"]
    by (simp add: funnel_metrics_def bindE_def py_truediv_zero)
qed

lemma funnel_zero_engagement:
  assumes f: "finite_view v" and z: "all_zero v ''engagement''"
  shows "funnel_metrics v = Inl ZeroDivisionError"
proof -
  note s = finite_view_sums [OF f]
  have "column_sum v ''engagement'' = Inr (Fin 0)"
    using s [of "''engagement''"] sum_all_zero [OF z] by simp
  then show ?thesis
    using s [of "''reach''"] s [of "''orders''"] s [of "''revenue''"] s [of "''total_payout''"]
    by (simp add: funnel_metrics_def bindE_def py_truediv_def)
qed

lemma funnel_zero_orders:
  assumes f: "finite_view v" and z: "all_zero v ''orders''"
  shows "funnel_metrics v = Inl ZeroDivisionError"
proof -
  note s = finite_view_sums [OF f]
  have "column_sum v ''orders'' = Inr (Fin 0)"
    using s [of "''orders''"] sum_all_zero [OF z] by simp
  then show ?thesis
    using s [of "''reach''"] s [of "''engagement''"] s [of "''revenue''"] s [of "''total_payout''"]
    by (simp add: funnel_metrics_def bindE_def py_truediv_def)
qed

lemma roi_all_zero_payout:
  assumes f: "finite_view v" and z: "all_zero v ''total_payout''"
  shows "roi_all v =
           Inr (if 0 < sum_list (map (\<lambda>r. fin_of (cell_of r ''revenue'')) (rows v)) then PInf
                else if sum_list (map (\<lambda>r. fin_of (cell_of r ''revenue'')) (rows v)) < 0 then NInf
                else NaN)"
proof -
  note s = finite_view_sums [OF f]
  have "column_sum v ''total_payout'' = Inr (Fin 0)"
    using s [of "''total_payout''"] sum_all_zero [OF z] by simp
  then show ?thesis
    using s [of "''revenue''"] by (simp add: roi_all_def bindE_def fsub_def)
qed

lemma cost_per_order_zero_orders:
  assumes f: "finite_view v" and z: "all_zero v ''orders''"
  shows "cost_per_order v =
           Inr (if 0 < sum_list (map (\<lambda>r. fin_of (cell_of r ''total_payout'')) (rows v)) then PInf
                else if sum_list (map (\<lambda>r. fin_of (cell_of r ''total_payout'')) (rows v)) < 0 then NInf
                else NaN)"
proof -
  note s = finite_view_sums [OF f]
  have "column_sum v ''orders'' = Inr (Fin 0)"
    using s [of "''orders''"] sum_all_zero [OF z] by simp
  then show ?thesis
    using s [of "''total_payout''"] by (simp add: cost_per_order_def bindE_def)
qed

lemma finite_zero_view: "finite_view zero_view"
  by (simp add: finite_view_def zero_view_def required_columns_def campaign_row_def cell_of_def)

lemma finite_no_orders_view: "finite_view no_orders_view"
  by (simp add: finite_view_def no_orders_view_def required_columns_def campaign_row_def
      cell_of_def)

lemma zero_view_zeros:
  "all_zero zero_view ''total_payout''" "all_zero zero_view ''reach''"
  "all_zero zero_view ''orders''" "all_zero zero_view ''engagement''"
  by (simp_all add: all_zero_def zero_view_def campaign_row_def cell_of_def)

lemma no_orders_view_zeros: "all_zero no_orders_view ''orders''"
  by (simp add: all_zero_def no_orders_view_def campaign_row_def cell_of_def)

lemma zero_view_revenue:
  "sum_list (map (\<lambda>r. fin_of (cell_of r ''revenue'')) (rows zero_view)) = 22000"
  by (simp add: zero_view_def campaign_row_def cell_of_def)

lemma no_orders_view_payout:
  "sum_list (map (\<lambda>r. fin_of (cell_of r ''total_payout'')) (rows no_orders_view)) = 2000"
  by (simp add: no_orders_view_def campaign_row_def cell_of_def)

section \<open>Lemmas about the outliers\<close>

lemma fin_or_nan_fl_of: "fin_or_nan c \<Longrightarrow> fl_of c = Inr (num_of c)"
  by (induction c rule: fin_or_nan.induct) simp_all

lemma mapE_all_Inr: "(\<And>x. x \<in> set xs \<Longrightarrow> f x = Inr (g x)) \<Longrightarrow> mapE f xs = Inr (map g xs)"
  by (induction xs) simp_all

lemma notna_values:
  "list_all fin_or_nan xs \<Longrightarrow>
   filter (\<lambda>v. v \<noteq> NaN) (map num_of xs) = map (\<lambda>x. Fin (fin_of x)) (filter is_fin xs)"
proof (induction xs)
  case Nil
  then show ?case by simp
next
  case (Cons x xs)
  then have "fin_or_nan x" by simp
  then show ?case using Cons by (induction x rule: fin_or_nan.induct) simp_all
qed

lemma fl_of_column:
  assumes "list_all fin_or_nan xs"
  shows "mapE fl_of xs = Inr (map num_of xs)"
  by (rule mapE_all_Inr) (use assms fin_or_nan_fl_of in \<open>auto simp: list_all_iff\<close>)

lemma series_mean_values:
  assumes "list_all fin_or_nan xs"
  shows "series_mean xs =
           Inr (fdiv (Fin (sum_list (map fin_of (filter is_fin xs))))
                  (Fin (real (length (filter is_fin xs)))))"
proof -
  have "series_mean xs =
      Inr (fdiv (foldl fadd (Fin 0) (map (\<lambda>x. Fin (fin_of x)) (filter is_fin xs)))
             (Fin (real (length (map (\<lambda>x. Fin (fin_of x)) (filter is_fin xs))))))"
    by (simp only: series_mean_def fl_of_column [OF assms] bindE_def sum.case Let_def
        notna_values [OF assms])
  also have "foldl fadd (Fin 0) (map (\<lambda>x. Fin (fin_of x)) (filter is_fin xs))
      = Fin (sum_list (map fin_of (filter is_fin xs)))"
    by (simp only: foldl_fadd_Fin) simp
  finally show ?thesis by (simp only: length_map)
qed

lemma series_std_values:
  assumes "list_all fin_or_nan xs"
  shows "series_std xs =
           Inr (if length (filter is_fin xs) \<le> 1 then NaN
                else Fin (sample_std (map fin_of (filter is_fin xs))))"
proof -
  let ?fs = "filter is_fin xs"
  let ?vs = "map fin_of ?fs"
  let ?ys = "map (\<lambda>x. Fin (fin_of x)) ?fs"
  let ?m = "sample_mean ?vs"
  have unfold: "series_std xs =
      Inr (if length ?ys \<le> 1 then NaN
           else fsqrt (fdiv (foldl fadd (Fin 0)
                  (map (\<lambda>y. fmul (fsub (fdiv (foldl fadd (Fin 0) ?ys) (Fin (real (length ?ys)))) y)
                                  (fsub (fdiv (foldl fadd (Fin 0) ?ys) (Fin (real (length ?ys)))) y))
                     ?ys))
                  (Fin (real (length ?ys) - 1))))"
    by (simp only: series_std_def fl_of_column [OF assms] bindE_def sum.case Let_def
        notna_values [OF assms])
  show ?thesis
  proof (cases "length ?fs \<le> 1")
    case True
    then show ?thesis unfolding unfold by simp
  next
    case False
    then have "1 < real (length ?fs)" by simp
    then have n: "real (length ?fs) \<noteq> 0" "real (length ?fs) - 1 \<noteq> 0" "0 < real (length ?fs) - 1"
      by auto
    have sum: "foldl fadd (Fin 0) ?ys = Fin (sum_list ?vs)"
      by (simp only: foldl_fadd_Fin) simp
    have avg: "fdiv (foldl fadd (Fin 0) ?ys) (Fin (real (length ?ys))) = Fin ?m"
      using n(1) by (simp add: sum sample_mean_def)
    have sq: "map (\<lambda>y. fmul (fsub (Fin ?m) y) (fsub (Fin ?m) y)) ?ys
        = map (\<lambda>x. Fin ((fin_of x - ?m)\<^sup>2)) ?fs"
      by (simp add: fsub_def power2_eq_square algebra_simps)
    have tot: "foldl fadd (Fin 0) (map (\<lambda>x. Fin ((fin_of x - ?m)\<^sup>2)) ?fs)
        = Fin (sum_list (map (\<lambda>y. (y - ?m)\<^sup>2) ?vs))"
      by (simp only: foldl_fadd_Fin) (simp add: comp_def)
    have nonneg: "0 \<le> sum_list (map (\<lambda>y. (y - ?m)\<^sup>2) ?vs) / (real (length ?vs) - 1)"
    proof (rule divide_nonneg_nonneg)
      show "0 \<le> sum_list (map (\<lambda>y. (y - ?m)\<^sup>2) ?vs)"
        by (rule sum_list_nonneg) auto
      show "0 \<le> real (length ?vs) - 1" using n(3) by simp
    qed
    have "series_std xs =
        Inr (fsqrt (fdiv (Fin (sum_list (map (\<lambda>y. (y - ?m)\<^sup>2) ?vs)))
                      (Fin (real (length ?vs) - 1))))"
      unfolding unfold avg sq tot using False by simp
    also have "\<dots> = Inr (Fin (sample_std ?vs))"
      using n(2) nonneg by (simp add: sample_std_def)
    finally show ?thesis using False by simp
  qed
qed

lemma gt_col_values:
  assumes "list_all fin_or_nan xs"
  shows "gt_col xs t = Inr (map (\<lambda>c. fless t (num_of c)) xs)"
  unfolding gt_col_def
  by (rule mapE_all_Inr) (use assms fin_or_nan_fl_of in \<open>auto simp: list_all_iff bindE_def\<close>)

lemma lt_col_values:
  assumes "list_all fin_or_nan xs"
  shows "lt_col xs t = Inr (map (\<lambda>c. fless (num_of c) t) xs)"
  unfolding lt_col_def
  by (rule mapE_all_Inr) (use assms fin_or_nan_fl_of in \<open>auto simp: list_all_iff bindE_def\<close>)

lemma mask_or_map: "mask_or (map P rs) (map Q rs) = map (\<lambda>r. P r \<or> Q r) rs"
  by (induction rs) (simp_all add: mask_or_def)

lemma fless_nan_threshold: "\<not> fless (fadd m NaN) x" "\<not> fless x (fsub m NaN)"
  by (cases m; cases x; simp add: fsub_def)+

lemma outlier_test:
  assumes "fin_or_nan c"
  shows "(fless (fadd (fdiv (Fin (sum_list vs)) (Fin (real (length vs))))
                  (fmul (Fin 2) (if length vs \<le> 1 then NaN else Fin (sample_std vs))))
            (num_of c) \<or>
          fless (num_of c)
            (fsub (fdiv (Fin (sum_list vs)) (Fin (real (length vs))))
                  (fmul (Fin 2) (if length vs \<le> 1 then NaN else Fin (sample_std vs)))))
         = spec_outlier_value vs c"
proof (cases "length vs \<le> 1")
  case True
  then have "\<not> 2 \<le> length vs" by simp
  then have "\<not> spec_outlier_value vs c"
    using assms by (induction c rule: fin_or_nan.induct) simp_all
  moreover define m where "m = fdiv (Fin (sum_list vs)) (Fin (real (length vs)))"
  ultimately show ?thesis
    unfolding m_def [symmetric] using True by (simp add: fless_nan_threshold)
next
  case False
  then have n: "real (length vs) \<noteq> 0" "2 \<le> length vs" by auto
  have m: "fdiv (Fin (sum_list vs)) (Fin (real (length vs))) = Fin (sample_mean vs)"
    using n(1) by (simp add: sample_mean_def)
  show ?thesis
    using assms False n(2)
    by (induction c rule: fin_or_nan.induct) (auto simp: fsub_def sample_mean_def)
qed

lemma select_columns_present:
  "list_all (\<lambda>c. c \<in> set (columns df)) cs \<Longrightarrow>
   select_columns df cs = Inr (df\<lparr>columns := cs, rows := map (\<lambda>r. r |` set cs) (rows df)\<rparr>)"
proof -
  assume "list_all (\<lambda>c. c \<in> set (columns df)) cs"
  then have "find (\<lambda>c. c \<notin> set (columns df)) cs = None"
    by (simp add: find_None_iff list_all_iff)
  then show ?thesis by (simp add: select_columns_def)
qed

lemma two_sqrt_less_abs: "2 * sqrt V < \<bar>x\<bar> \<longleftrightarrow> 4 * V < x\<^sup>2"
proof -
  have "2 * sqrt V = sqrt (4 * V)" by (simp add: real_sqrt_mult)
  moreover have "\<bar>x\<bar> = sqrt (x\<^sup>2)" by simp
  ultimately show ?thesis by (simp only: real_sqrt_less_iff)
qed

lemma far_view_ok: "outlier_view far_view"
  by (simp add: outlier_view_def far_view_def outlier_columns_def roi_row_def cell_of_def)

lemma near_view_ok: "outlier_view near_view"
  by (simp add: outlier_view_def near_view_def outlier_columns_def roi_row_def cell_of_def)

lemma far_values: "roi_values far_view = [0, 0, 0, 0, 0, 1000]"
  by (simp add: roi_values_def far_view_def roi_row_def cell_of_def)

lemma near_values: "roi_values near_view = [0, 0, 0, 0, 100, 300]"
  by (simp add: roi_values_def near_view_def roi_row_def cell_of_def)

lemma far_mean: "sample_mean [0, 0, 0, 0, 0, 1000] = 500 / 3"
  by (simp add: sample_mean_def)

lemma near_mean: "sample_mean [0, 0, 0, 0, 100, 300] = 200 / 3"
  by (simp add: sample_mean_def)

lemma far_std: "sample_std [0, 0, 0, 0, 0, 1000] = sqrt (500000 / 3)"
  by (simp add: sample_std_def far_mean power2_eq_square)

lemma near_std: "sample_std [0, 0, 0, 0, 100, 300] = sqrt (44000 / 3)"
  by (simp add: sample_std_def near_mean power2_eq_square)

lemma near_pop: "population_std [0, 0, 0, 0, 100, 300] = sqrt (110000 / 9)"
  by (simp add: population_std_def near_mean power2_eq_square)

lemma far_test:
  "spec_outlier_value [0, 0, 0, 0, 0, 1000] (Num (Fin a)) \<longleftrightarrow> 4 * (500000 / 3) < (a - 500 / 3)\<^sup>2"
  by (simp only: spec_outlier_value.simps far_mean far_std two_sqrt_less_abs) simp

lemma near_test:
  "spec_outlier_value [0, 0, 0, 0, 100, 300] (Num (Fin a)) \<longleftrightarrow> 4 * (44000 / 3) < (a - 200 / 3)\<^sup>2"
  by (simp only: spec_outlier_value.simps near_mean near_std two_sqrt_less_abs) simp

lemma far_rows:
  "rows far_view = [roi_row ''A'' 100 100, roi_row ''B'' 100 100, roi_row ''C'' 0 0,
              roi_row ''D'' 100 100, roi_row ''E'' 100 100, roi_row ''F'' 100 100,
              roi_row ''G'' 1100 100]"
  by (simp add: far_view_def)

lemma near_rows:
  "rows near_view = [roi_row ''A'' 100 100, roi_row ''B'' 100 100, roi_row ''C'' 0 0,
              roi_row ''D'' 100 100, roi_row ''E'' 100 100, roi_row ''F'' 200 100,
              roi_row ''G'' 400 100]"
  by (simp add: near_view_def)

lemma roi_row_cells:
  "cell_of (roi_row nm rv tp) ''roi_percentage''
     = Num (if tp = 0 then NaN else Fin ((rv - tp) / tp * 100))"
  "cell_of (roi_row nm rv tp) ''name'' = Txt nm"
  by (simp_all add: roi_row_def cell_of_def)

lemma far_outliers:
  "map (\<lambda>r. cell_of r ''name'') (filter (spec_outlier far_view) (rows far_view)) = [Txt ''G'']"
  by (simp add: far_rows spec_outlier_def far_values roi_row_cells far_test power2_eq_square
      del: spec_outlier_value.simps(1))

lemma near_outliers:
  "map (\<lambda>r. cell_of r ''name'') (filter (spec_outlier near_view) (rows near_view)) = []"
  by (simp add: near_rows spec_outlier_def near_values roi_row_cells near_test power2_eq_square
      del: spec_outlier_value.simps(1))

lemma near_population:
  "2 * population_std (roi_values near_view) < \<bar>300 - sample_mean (roi_values near_view)\<bar>"
  by (simp only: near_values near_pop near_mean two_sqrt_less_abs) (simp add: power2_eq_square)

lemma then_getitem_selected:
  "c \<in> set cs \<Longrightarrow>
   then_getitem (Inr (v\<lparr>columns := cs, rows := map (\<lambda>r. r |` set cs) rs\<rparr>)) c
     = Inr (map (\<lambda>r. cell_of r c) rs)"
  by (simp add: then_getitem_def bindE_def getitem_def cell_of_def comp_def)

section \<open>Lemmas about missing columns\<close>






lemma stage_average_order_value:
  assumes "''revenue'' \<in> set (columns df)" "''orders'' \<in> set (columns df)"
    and n: "\<forall>r\<in>set (rows df). numeric_row r"
    and r: "\<forall>r\<in>set (rows df). is_num (cell_of r ''roi_percentage'')"
  shows "\<exists>df6. set_average_order_value df = Inr df6 \<and>
           set (columns df6) = insert ''average_order_value'' (set (columns df)) \<and>
           (\<forall>r\<in>set (rows df6). is_num (cell_of r ''roi_percentage''))"
proof -
  have "\<exists>df6. set_average_order_value df = Inr df6"
    by (rule set_average_order_value_total) (use assms in \<open>auto simp: numeric_row_def\<close>)
  then obtain df6 where s: "set_average_order_value df = Inr df6" by blast
  note f = set_average_order_value_Inr [OF s]
  have "\<forall>r\<in>set (rows df6). is_num (cell_of r ''roi_percentage'')"
    by (rule upd_keeps [OF f(1) _ _ r, of "''average_order_value''"]) (use f(3) in \<open>blast, simp\<close>)
  with s f(2) show ?thesis by blast
qed

lemma getitem_missing: "c \<notin> set (columns df) \<Longrightarrow> getitem df c = Inl (KeyError c)"
  by (simp add: getitem_def)

lemma getitem_present: "c \<in> set (columns df) \<Longrightarrow> \<exists>xs. getitem df c = Inr xs"
  by (simp add: getitem_def)










section \<open>Claims about the derived metrics\<close>




text \<open>
  Claim C2. For every record the \<^verbatim>\<open>performance_category\<close> is one of the four
  Performer strings. For a record with a finite revenue \<open>v\<close> and a payout \<open>p > 0\<close> the
  \<^verbatim>\<open>roi_percentage\<close> is \<open>(v - p) / p * 100\<close> and the bands are inclusive at their lower
  bound: High from 200, Good on \<open>[100, 200)\<close>, Average on \<open>[0, 100)\<close>, Poor below 0; each
  value of the real line lies in exactly one band. The values 200 and -50 classify as
  High and Poor.
\<close>

theorem roi_bands:
  assumes ok: "clean_and_engineer parse df = Inr df'" and i: "i < length (rows df)"
  shows "cell_of (rows df' ! i) ''performance_category'' \<in>
           {Txt ''High Performer'', Txt ''Good Performer'', Txt ''Average Performer'',
            Txt ''Poor Performer''} \<and>
         (\<forall>p v. cell_of (rows df ! i) ''total_payout'' = Num (Fin p) \<and> 0 < p \<and>
                cell_of (rows df ! i) ''revenue'' = Num (Fin v) \<longrightarrow>
            cell_of (rows df' ! i) ''roi_percentage'' = Num (Fin ((v - p) / p * 100)) \<and>
            (cell_of (rows df' ! i) ''performance_category'' = Txt ''High Performer''
               \<longleftrightarrow> 200 \<le> (v - p) / p * 100) \<and>
            (cell_of (rows df' ! i) ''performance_category'' = Txt ''Good Performer''
               \<longleftrightarrow> 100 \<le> (v - p) / p * 100 \<and> (v - p) / p * 100 < 200) \<and>
            (cell_of (rows df' ! i) ''performance_category'' = Txt ''Average Performer''
               \<longleftrightarrow> 0 \<le> (v - p) / p * 100 \<and> (v - p) / p * 100 < 100) \<and>
            (cell_of (rows df' ! i) ''performance_category'' = Txt ''Poor Performer''
               \<longleftrightarrow> (v - p) / p * 100 < 0)) \<and>
         performance_category (Num (Fin 200)) = Inr (Txt ''High Performer'') \<and>
         performance_category (Num (Fin (- 50))) = Inr (Txt ''Poor Performer'')"
proof -
  from clean_and_engineer_row [OF ok i]
  obtain d e q er ro n q' rp ao pc where
    r: "rows df' ! i = (rows df ! i)(''date'' \<mapsto> d, ''engagement'' \<mapsto> e,
         ''engagement_rate'' \<mapsto> er, ''roas'' \<mapsto> ro, ''roi_percentage'' \<mapsto> rp,
         ''average_order_value'' \<mapsto> ao, ''performance_category'' \<mapsto> pc)"
    and q: "cell_mul100 q = Inr er"
    and n: "cell_sub (cell_of (rows df ! i) ''revenue'') (cell_of (rows df ! i) ''total_payout'')
              = Inr n"
    and q': "cell_div n (replace0 (cell_of (rows df ! i) ''total_payout'')) = Inr q'"
    and rp: "cell_mul100 q' = Inr rp"
    and pc: "performance_category rp = Inr pc"
    by blast
  have cat: "cell_of (rows df' ! i) ''performance_category'' = pc"
    and roi: "cell_of (rows df' ! i) ''roi_percentage'' = rp"
    by (simp_all add: r cell_of_def)
  have range: "pc \<in> {Txt ''High Performer'', Txt ''Good Performer'', Txt ''Average Performer'',
            Txt ''Poor Performer''}"
    using pc by (rule performance_category_range)
  have bands: "rp = Num (Fin ((v - p) / p * 100)) \<and>
      (pc = Txt ''High Performer'' \<longleftrightarrow> 200 \<le> (v - p) / p * 100) \<and>
      (pc = Txt ''Good Performer'' \<longleftrightarrow> 100 \<le> (v - p) / p * 100 \<and> (v - p) / p * 100 < 200) \<and>
      (pc = Txt ''Average Performer'' \<longleftrightarrow> 0 \<le> (v - p) / p * 100 \<and> (v - p) / p * 100 < 100) \<and>
      (pc = Txt ''Poor Performer'' \<longleftrightarrow> (v - p) / p * 100 < 0)"
    if p: "cell_of (rows df ! i) ''total_payout'' = Num (Fin p)" "0 < p"
      and v: "cell_of (rows df ! i) ''revenue'' = Num (Fin v)" for p v
  proof -
    from n p v have "n = Num (Fin (v - p))" by (simp add: fsub_def)
    with q' p have "q' = Num (Fin ((v - p) / p))" by simp
    with rp have rp': "rp = Num (Fin ((v - p) / p * 100))" by simp
    from performance_category_bands [OF pc [unfolded rp']] rp' show ?thesis by blast
  qed
  show ?thesis
    unfolding cat roi using range bands by simp
qed

text \<open>The two records of the specification's example: payouts 1000 and 500, revenues 3000 and 250.\<close>

theorem roi_bands_witness:
  "\<exists>df'. clean_and_engineer no_parse spec_example_frame = Inr df' \<and>
     cell_of (rows df' ! 0) ''roi_percentage'' = Num (Fin 200) \<and>
     cell_of (rows df' ! 0) ''performance_category'' = Txt ''High Performer'' \<and>
     cell_of (rows df' ! 1) ''roi_percentage'' = Num (Fin (- 50)) \<and>
     cell_of (rows df' ! 1) ''performance_category'' = Txt ''Poor Performer''"
proof -
  from clean_and_engineer_total [OF well_formed_spec_example_frame]
  obtain df' where ok: "clean_and_engineer no_parse spec_example_frame = Inr df'" by blast
  have i0: "0 < length (rows spec_example_frame)" and i1: "1 < length (rows spec_example_frame)"
    by (simp_all add: spec_example_frame_def)
  have c0: "cell_of (rows spec_example_frame ! 0) ''total_payout'' = Num (Fin 1000)"
    "cell_of (rows spec_example_frame ! 0) ''revenue'' = Num (Fin 3000)"
    and c1: "cell_of (rows spec_example_frame ! 1) ''total_payout'' = Num (Fin 500)"
    "cell_of (rows spec_example_frame ! 1) ''revenue'' = Num (Fin 250)"
    by (simp_all add: spec_example_frame_def campaign_row_def cell_of_def)
  from roi_bands [OF ok i0] c0
  have "cell_of (rows df' ! 0) ''roi_percentage'' = Num (Fin 200) \<and>
     cell_of (rows df' ! 0) ''performance_category'' = Txt ''High Performer''"
    by simp
  moreover from roi_bands [OF ok i1] c1
  have "cell_of (rows df' ! 1) ''roi_percentage'' = Num (Fin (- 50)) \<and>
     cell_of (rows df' ! 1) ''performance_category'' = Txt ''Poor Performer''"
    by simp
  ultimately show ?thesis using ok by blast
qed

text \<open>
  Claim C3. On a frame whose seven columns read by \<^verbatim>\<open>clean_and_engineer\<close> are present,
  whose six numeric columns hold numbers and whose dates convert, the function returns
  a frame (it does not raise) with the columns \<^verbatim>\<open>engagement_rate\<close>, \<^verbatim>\<open>roas\<close>,
  \<^verbatim>\<open>roi_percentage\<close> and \<^verbatim>\<open>average_order_value\<close>, and in every record a zero
  \<^verbatim>\<open>reach\<close> gives a stored NaN \<^verbatim>\<open>engagement_rate\<close>, a zero \<^verbatim>\<open>total_payout\<close> gives stored
  NaN \<^verbatim>\<open>roas\<close> and \<^verbatim>\<open>roi_percentage\<close>, and zero \<^verbatim>\<open>orders\<close> give a stored NaN
  \<^verbatim>\<open>average_order_value\<close>: the metric is null, not zero and not an infinity.
\<close>

theorem zero_denominator_null:
  assumes wf: "well_formed parse df"
  shows "\<exists>df'. clean_and_engineer parse df = Inr df' \<and>
           length (rows df') = length (rows df) \<and>
           ''engagement_rate'' \<in> set (columns df') \<and> ''roas'' \<in> set (columns df') \<and>
           ''roi_percentage'' \<in> set (columns df') \<and>
           ''average_order_value'' \<in> set (columns df') \<and>
           (\<forall>i<length (rows df).
              (cell_of (rows df ! i) ''reach'' = Num (Fin 0) \<longrightarrow>
                 (rows df' ! i) ''engagement_rate'' = Some (Num NaN)) \<and>
              (cell_of (rows df ! i) ''total_payout'' = Num (Fin 0) \<longrightarrow>
                 (rows df' ! i) ''roas'' = Some (Num NaN) \<and>
                 (rows df' ! i) ''roi_percentage'' = Some (Num NaN)) \<and>
              (cell_of (rows df ! i) ''orders'' = Num (Fin 0) \<longrightarrow>
                 (rows df' ! i) ''average_order_value'' = Some (Num NaN)))"
proof -
  from clean_and_engineer_total [OF wf]
  obtain df' where ok: "clean_and_engineer parse df = Inr df'" by blast
  have cols: "''engagement_rate'' \<in> set (columns df')" "''roas'' \<in> set (columns df')"
    "''roi_percentage'' \<in> set (columns df')" "''average_order_value'' \<in> set (columns df')"
    by (simp_all add: clean_and_engineer_columns [OF ok])
  have "(cell_of (rows df ! i) ''reach'' = Num (Fin 0) \<longrightarrow>
                 (rows df' ! i) ''engagement_rate'' = Some (Num NaN)) \<and>
              (cell_of (rows df ! i) ''total_payout'' = Num (Fin 0) \<longrightarrow>
                 (rows df' ! i) ''roas'' = Some (Num NaN) \<and>
                 (rows df' ! i) ''roi_percentage'' = Some (Num NaN)) \<and>
              (cell_of (rows df ! i) ''orders'' = Num (Fin 0) \<longrightarrow>
                 (rows df' ! i) ''average_order_value'' = Some (Num NaN))"
    if i: "i < length (rows df)" for i
  proof -
    from clean_and_engineer_row [OF ok i]
    obtain d e q er ro n q' rp ao pc where
      r: "rows df' ! i = (rows df ! i)(''date'' \<mapsto> d, ''engagement'' \<mapsto> e,
         ''engagement_rate'' \<mapsto> er, ''roas'' \<mapsto> ro, ''roi_percentage'' \<mapsto> rp,
         ''average_order_value'' \<mapsto> ao, ''performance_category'' \<mapsto> pc)"
      and q: "cell_div e (replace0 (cell_of (rows df ! i) ''reach'')) = Inr q"
      and er: "cell_mul100 q = Inr er"
      and ro: "cell_div (cell_of (rows df ! i) ''revenue'')
                 (replace0 (cell_of (rows df ! i) ''total_payout'')) = Inr ro"
      and q': "cell_div n (replace0 (cell_of (rows df ! i) ''total_payout'')) = Inr q'"
      and rp: "cell_mul100 q' = Inr rp"
      and ao: "cell_div (cell_of (rows df ! i) ''revenue'')
                 (replace0 (cell_of (rows df ! i) ''orders'')) = Inr ao"
      by blast
    have cells: "(rows df' ! i) ''engagement_rate'' = Some er"
      "(rows df' ! i) ''roas'' = Some ro" "(rows df' ! i) ''roi_percentage'' = Some rp"
      "(rows df' ! i) ''average_order_value'' = Some ao"
      by (simp_all add: r)
    have "er = Num NaN" if "cell_of (rows df ! i) ''reach'' = Num (Fin 0)"
      using q er that cell_div_nan [of e q] by auto
    moreover have "ro = Num NaN \<and> rp = Num NaN"
      if "cell_of (rows df ! i) ''total_payout'' = Num (Fin 0)"
      using ro q' rp that cell_div_nan [of _ ro] cell_div_nan [of n q'] by auto
    moreover have "ao = Num NaN" if "cell_of (rows df ! i) ''orders'' = Num (Fin 0)"
      using ao that cell_div_nan [of _ ao] by auto
    ultimately show ?thesis unfolding cells by blast
  qed
  with ok clean_and_engineer_length [OF ok] cols show ?thesis by blast
qed

text \<open>
  The theorem at \<open>zero_frame\<close>, where reach, payout and orders are all zero: the four
  columns of the result, read with \<^verbatim>\<open>df[c]\<close>, hold NaN.
\<close>

theorem zero_denominator_null_witness:
  "well_formed no_parse zero_frame \<and>
   (\<exists>df'. clean_and_engineer no_parse zero_frame = Inr df' \<and>
      getitem df' ''engagement_rate'' = Inr [Num NaN] \<and>
      getitem df' ''roas'' = Inr [Num NaN] \<and>
      getitem df' ''roi_percentage'' = Inr [Num NaN] \<and>
      getitem df' ''average_order_value'' = Inr [Num NaN])"
proof -
  have z: "cell_of (rows zero_frame ! 0) ''reach'' = Num (Fin 0)"
    "cell_of (rows zero_frame ! 0) ''total_payout'' = Num (Fin 0)"
    "cell_of (rows zero_frame ! 0) ''orders'' = Num (Fin 0)"
    and len: "length (rows zero_frame) = 1"
    by (simp_all add: zero_frame_def campaign_row_def cell_of_def)
  from zero_denominator_null [OF well_formed_zero_frame] obtain df' where
    ok: "clean_and_engineer no_parse zero_frame = Inr df'"
    and l: "length (rows df') = length (rows zero_frame)"
    and c: "''engagement_rate'' \<in> set (columns df')" "''roas'' \<in> set (columns df')"
      "''roi_percentage'' \<in> set (columns df')" "''average_order_value'' \<in> set (columns df')"
    and v: "\<forall>i<length (rows zero_frame).
              (cell_of (rows zero_frame ! i) ''reach'' = Num (Fin 0) \<longrightarrow>
                 (rows df' ! i) ''engagement_rate'' = Some (Num NaN)) \<and>
              (cell_of (rows zero_frame ! i) ''total_payout'' = Num (Fin 0) \<longrightarrow>
                 (rows df' ! i) ''roas'' = Some (Num NaN) \<and>
                 (rows df' ! i) ''roi_percentage'' = Some (Num NaN)) \<and>
              (cell_of (rows zero_frame ! i) ''orders'' = Num (Fin 0) \<longrightarrow>
                 (rows df' ! i) ''average_order_value'' = Some (Num NaN))"
    by blast
  from l len obtain r where rs: "rows df' = [r]"
    by (cases "rows df'") simp_all
  from v [rule_format, of 0] z len rs
  have "r ''engagement_rate'' = Some (Num NaN)" "r ''roas'' = Some (Num NaN)"
    "r ''roi_percentage'' = Some (Num NaN)" "r ''average_order_value'' = Some (Num NaN)"
    by simp_all
  then have "getitem df' ''engagement_rate'' = Inr [Num NaN]"
    "getitem df' ''roas'' = Inr [Num NaN]" "getitem df' ''roi_percentage'' = Inr [Num NaN]"
    "getitem df' ''average_order_value'' = Inr [Num NaN]"
    using c rs by (simp_all add: getitem_def cell_of_def)
  with ok well_formed_zero_frame show ?thesis by blast
qed

section \<open>Claims about the filter\<close>

text \<open>
  Claim C4. Filtering is idempotent: filtering the view \<^verbatim>\<open>data\<close> again with the same
  selections gives the same view; where the first filtering raises, so does the
  composition, with the same error.
\<close>

theorem filter_idempotent:
  "bindE (data df S) (\<lambda>v. data v S) = data df S"
proof (cases "filterable df S")
  case True
  let ?v = "df\<lparr>rows := filter (keep S) (rows df)\<rparr>"
  have "data ?v S = Inr (?v\<lparr>rows := filter (keep S) (rows ?v)\<rparr>)"
    by (rule data_filterable) (rule filterable_view [OF True])
  also have "?v\<lparr>rows := filter (keep S) (rows ?v)\<rparr> = ?v" by simp
  finally show ?thesis by (simp add: data_filterable [OF True] bindE_def)
next
  case False
  from data_not_filterable [OF this] show ?thesis by (auto simp: bindE_def)
qed

text \<open>
  Claim C5. When one of the four multiselect lists (campaigns, platforms, categories,
  genders) is empty, the filter of a frame it can be applied to returns a view with no
  rows, whatever the other selections are: \<^verbatim>\<open>isin\<close> of an empty list is false
  everywhere.
\<close>

theorem empty_selection_matches_nothing:
  assumes "filterable df S"
    and "campaigns S = [] \<or> platforms S = [] \<or> categories S = [] \<or> genders S = []"
  shows "\<exists>v. data df S = Inr v \<and> rows v = [] \<and> empty v"
proof -
  have "\<not> keep S r" for r
    using assms(2) isin_cell_empty by (auto simp: keep_def)
  then have "filter (keep S) (rows df) = []" by simp
  with data_filterable [OF assms(1)] show ?thesis by (simp add: empty_def)
qed

text \<open>The engineered two-record example with every option selected except the platforms.\<close>

theorem empty_selection_matches_nothing_witness:
  "\<exists>df v. clean_and_engineer no_parse spec_example_frame = Inr df \<and>
     filterable df no_platform \<and> platforms no_platform = [] \<and>
     data df no_platform = Inr v \<and> rows v = [] \<and> empty v"
proof -
  from clean_and_engineer_total [OF well_formed_spec_example_frame]
  obtain df where ok: "clean_and_engineer no_parse spec_example_frame = Inr df" by blast
  have "list_all (\<lambda>c. c \<in> set (columns spec_example_frame))
          [''campaign'', ''platform'', ''category'', ''gender'']"
    by (simp add: spec_example_frame_def required_columns_def)
  from clean_and_engineer_filterable [OF ok this]
  have f: "filterable df no_platform" .
  have e: "campaigns no_platform = [] \<or> platforms no_platform = [] \<or>
           categories no_platform = [] \<or> genders no_platform = []"
    by (simp add: no_platform_def)
  from empty_selection_matches_nothing [OF f e] ok f show ?thesis
    by (auto simp: no_platform_def)
qed

text \<open>
  Claim C6. On a view with the outlier table's columns whose \<^verbatim>\<open>roi_percentage\<close> cells
  are finite or NaN, the outlier table holds exactly the records whose value lies more
  than two sample standard deviations from the mean of the view's non-null values, in
  their order; records with a null value take no part in the mean and the deviation,
  and are never outliers. With fewer than two non-null values the deviation is
  undefined (NaN in the code) and no record is an outlier.
\<close>

theorem outliers_two_sample_std:
  assumes ov: "outlier_view v"
  shows "outlier_df v =
           Inr (v\<lparr>columns := outlier_columns,
                  rows := map (\<lambda>r. r |` set outlier_columns) (filter (spec_outlier v) (rows v))\<rparr>)"
proof -
  let ?x = "map (\<lambda>r. cell_of r ''roi_percentage'') (rows v)"
  let ?vs = "roi_values v"
  let ?m = "fdiv (Fin (sum_list ?vs)) (Fin (real (length ?vs)))"
  let ?s = "if length ?vs \<le> 1 then NaN else Fin (sample_std ?vs)"
  from ov have cols: "list_all (\<lambda>c. c \<in> set (columns v)) outlier_columns"
    and fin: "list_all fin_or_nan ?x"
    by (simp_all add: outlier_view_def list_all_iff)
  from cols have roi: "getitem v ''roi_percentage'' = Inr ?x"
    by (simp add: getitem_def outlier_columns_def)
  have mean: "series_mean ?x = Inr ?m"
    using series_mean_values [OF fin] by (simp add: roi_values_def)
  have std: "series_std ?x = Inr ?s"
    using series_std_values [OF fin] by (simp add: roi_values_def)
  have mask: "mask_or (map (\<lambda>c. fless (fadd ?m (fmul (Fin 2) ?s)) (num_of c)) ?x)
                      (map (\<lambda>c. fless (num_of c) (fsub ?m (fmul (Fin 2) ?s))) ?x)
              = map (spec_outlier v) (rows v)"
  proof -
    have "(fless (fadd ?m (fmul (Fin 2) ?s)) (num_of (cell_of r ''roi_percentage'')) \<or>
           fless (num_of (cell_of r ''roi_percentage'')) (fsub ?m (fmul (Fin 2) ?s)))
          = spec_outlier v r" if "r \<in> set (rows v)" for r
    proof -
      from that fin have "fin_or_nan (cell_of r ''roi_percentage'')"
        by (simp add: list_all_iff)
      from outlier_test [OF this, of ?vs] show ?thesis by (simp only: spec_outlier_def)
    qed
    then show ?thesis by (simp only: mask_or_map map_map comp_def) (rule map_cong, simp_all)
  qed
  have cols': "list_all (\<lambda>c. c \<in> set (columns (v\<lparr>rows := filter (spec_outlier v) (rows v)\<rparr>)))
                 outlier_columns"
    using cols by simp
  have "outlier_df v = select_columns (getitem_mask v (map (spec_outlier v) (rows v))) outlier_columns"
    by (simp only: outlier_df_def roi mean std gt_col_values [OF fin] lt_col_values [OF fin]
        bindE_def sum.case mask)
  also have "\<dots> = select_columns (v\<lparr>rows := filter (spec_outlier v) (rows v)\<rparr>) outlier_columns"
    by (simp only: getitem_mask_map)
  also have "\<dots> = Inr (v\<lparr>columns := outlier_columns,
                  rows := map (\<lambda>r. r |` set outlier_columns) (filter (spec_outlier v) (rows v))\<rparr>)"
    by (simp add: select_columns_present [OF cols'])
  finally show ?thesis .
qed

text \<open>
  The theorem at two views of seven records, one of them with a null ROI. In the first
  the values are 0 five times and 1000, and G is the outlier. In the second they are
  0, 0, 0, 0, 100 and 300: no record is an outlier, though G would be one under the
  population standard deviation.
\<close>

theorem outliers_two_sample_std_witness:
  "outlier_view far_view \<and>
   then_getitem (outlier_df far_view) ''name'' = Inr [Txt ''G''] \<and>
   outlier_view near_view \<and>
   then_getitem (outlier_df near_view) ''name'' = Inr [] \<and>
   2 * population_std (roi_values near_view) < \<bar>300 - sample_mean (roi_values near_view)\<bar>"
proof -
  have n: "''name'' \<in> set outlier_columns" by (simp add: outlier_columns_def)
  have "then_getitem (outlier_df far_view) ''name'' = Inr [Txt ''G'']"
    by (simp only: outliers_two_sample_std [OF far_view_ok] then_getitem_selected [OF n]
        far_outliers)
  moreover have "then_getitem (outlier_df near_view) ''name'' = Inr []"
    by (simp only: outliers_two_sample_std [OF near_view_ok] then_getitem_selected [OF n]
        near_outliers)
  ultimately show ?thesis using far_view_ok near_view_ok near_population by simp
qed

section \<open>Claims about the views\<close>

text \<open>
  Claim C7. The top-\<open>n\<close> and bottom-\<open>n\<close> selections on a metric column are the first
  \<open>n\<close> rows of a stable order: they have \<open>min n\<close> of the rows, rows with the same value
  of the metric keep their original order and the earlier ones are taken first, the
  finite values descend (top) or ascend (bottom), and a row that beats a selected row
  is selected. Top-3 by revenue on A:100, B:300, C:300, D:50 is B, C, A.
\<close>

theorem top_n_stable:
  assumes hi: "nlargest n c df = Inr hi" and lo: "nsmallest n c df = Inr lo"
  shows "length (rows hi) = min n (length (rows df)) \<and>
         length (rows lo) = min n (length (rows df)) \<and>
         (\<forall>k. \<exists>zs. filter (\<lambda>r. cell_of r c = k) (rows df)
                  = filter (\<lambda>r. cell_of r c = k) (rows hi) @ zs) \<and>
         (\<forall>k. \<exists>zs. filter (\<lambda>r. cell_of r c = k) (rows df)
                  = filter (\<lambda>r. cell_of r c = k) (rows lo) @ zs) \<and>
         (\<forall>i j a b. i < j \<and> j < length (rows hi) \<and> cell_of (rows hi ! i) c = Num (Fin a) \<and>
              cell_of (rows hi ! j) c = Num (Fin b) \<longrightarrow> b \<le> a) \<and>
         (\<forall>i j a b. i < j \<and> j < length (rows lo) \<and> cell_of (rows lo ! i) c = Num (Fin a) \<and>
              cell_of (rows lo ! j) c = Num (Fin b) \<longrightarrow> a \<le> b) \<and>
         (\<forall>r\<in>set (rows df). \<forall>t\<in>set (rows hi). \<forall>a b.
              cell_of r c = Num (Fin a) \<and> cell_of t c = Num (Fin b) \<and> b < a
              \<longrightarrow> r \<in> set (rows hi)) \<and>
         (\<forall>r\<in>set (rows df). \<forall>t\<in>set (rows lo). \<forall>a b.
              cell_of r c = Num (Fin a) \<and> cell_of t c = Num (Fin b) \<and> a < b
              \<longrightarrow> r \<in> set (rows lo)) \<and>
         then_getitem (nlargest 3 ''revenue'' top3_example) ''name''
           = Inr [Txt ''B'', Txt ''C'', Txt ''A'']"
proof -
  note hi' = hi [unfolded nlargest_def] and lo' = lo [unfolded nsmallest_def]
  have s_hi: "b \<le> a" if "i < j" "j < length (rows hi)" "cell_of (rows hi ! i) c = Num (Fin a)"
    "cell_of (rows hi ! j) c = Num (Fin b)" for i j a b
    using select_n_sorted [OF hi' that(1,2)] that(3,4) by simp
  have s_lo: "a \<le> b" if "i < j" "j < length (rows lo)" "cell_of (rows lo ! i) c = Num (Fin a)"
    "cell_of (rows lo ! j) c = Num (Fin b)" for i j a b
    using select_n_sorted [OF lo' that(1,2)] that(3,4) by simp
  have b_hi: "r \<in> set (rows hi)" if "r \<in> set (rows df)" "t \<in> set (rows hi)"
    "cell_of r c = Num (Fin a)" "cell_of t c = Num (Fin b)" "b < a" for r t a b
    by (rule select_n_best [OF hi' that(1,2)]) (use that(3,4,5) in simp_all)
  have b_lo: "r \<in> set (rows lo)" if "r \<in> set (rows df)" "t \<in> set (rows lo)"
    "cell_of r c = Num (Fin a)" "cell_of t c = Num (Fin b)" "a < b" for r t a b
    by (rule select_n_best [OF lo' that(1,2)]) (use that(3,4,5) in simp_all)
  have t_hi: "\<forall>k. \<exists>zs. filter (\<lambda>r. cell_of r c = k) (rows df)
                  = filter (\<lambda>r. cell_of r c = k) (rows hi) @ zs"
    using select_n_ties [OF hi'] by blast
  have t_lo: "\<forall>k. \<exists>zs. filter (\<lambda>r. cell_of r c = k) (rows df)
                  = filter (\<lambda>r. cell_of r c = k) (rows lo) @ zs"
    using select_n_ties [OF lo'] by blast
  show ?thesis
  proof (intro conjI)
    show "length (rows hi) = min n (length (rows df))" by (rule select_n_length [OF hi'])
    show "length (rows lo) = min n (length (rows df))" by (rule select_n_length [OF lo'])
    show "\<forall>k. \<exists>zs. filter (\<lambda>r. cell_of r c = k) (rows df)
                  = filter (\<lambda>r. cell_of r c = k) (rows hi) @ zs" by (rule t_hi)
    show "\<forall>k. \<exists>zs. filter (\<lambda>r. cell_of r c = k) (rows df)
                  = filter (\<lambda>r. cell_of r c = k) (rows lo) @ zs" by (rule t_lo)
    show "\<forall>i j a b. i < j \<and> j < length (rows hi) \<and> cell_of (rows hi ! i) c = Num (Fin a) \<and>
              cell_of (rows hi ! j) c = Num (Fin b) \<longrightarrow> b \<le> a"
      using s_hi by blast
    show "\<forall>i j a b. i < j \<and> j < length (rows lo) \<and> cell_of (rows lo ! i) c = Num (Fin a) \<and>
              cell_of (rows lo ! j) c = Num (Fin b) \<longrightarrow> a \<le> b"
      using s_lo by blast
    show "\<forall>r\<in>set (rows df). \<forall>t\<in>set (rows hi). \<forall>a b.
              cell_of r c = Num (Fin a) \<and> cell_of t c = Num (Fin b) \<and> b < a
              \<longrightarrow> r \<in> set (rows hi)"
      using b_hi by blast
    show "\<forall>r\<in>set (rows df). \<forall>t\<in>set (rows lo). \<forall>a b.
              cell_of r c = Num (Fin a) \<and> cell_of t c = Num (Fin b) \<and> a < b
              \<longrightarrow> r \<in> set (rows lo)"
      using b_lo by blast
    show "then_getitem (nlargest 3 ''revenue'' top3_example) ''name''
           = Inr [Txt ''B'', Txt ''C'', Txt ''A'']" by (rule top3_value)
  qed
qed

text \<open>The theorem at the four rows of the example, with \<open>n = 3\<close>.\<close>

theorem top_n_stable_witness:
  "\<exists>hi lo. nlargest 3 ''revenue'' top3_example = Inr hi \<and>
     nsmallest 3 ''revenue'' top3_example = Inr lo \<and>
     length (rows hi) = 3 \<and> length (rows lo) = 3 \<and>
     then_getitem (nlargest 3 ''revenue'' top3_example) ''name''
       = Inr [Txt ''B'', Txt ''C'', Txt ''A'']"
proof -
  from top3_runs obtain hi lo where hi: "nlargest 3 ''revenue'' top3_example = Inr hi"
    and lo: "nsmallest 3 ''revenue'' top3_example = Inr lo" by blast
  have len: "length (rows top3_example) = 4" by (simp add: top3_example_def)
  note t = top_n_stable [OF hi lo]
  have "length (rows hi) = min 3 (length (rows top3_example))"
    by (rule t [THEN conjunct1])
  moreover have "length (rows lo) = min 3 (length (rows top3_example))"
    by (rule t [THEN conjunct2, THEN conjunct1])
  moreover have "then_getitem (nlargest 3 ''revenue'' top3_example) ''name''
           = Inr [Txt ''B'', Txt ''C'', Txt ''A'']"
    by (rule top3_value)
  ultimately have "length (rows hi) = 3 \<and> length (rows lo) = 3 \<and>
     then_getitem (nlargest 3 ''revenue'' top3_example) ''name''
       = Inr [Txt ''B'', Txt ''C'', Txt ''A'']"
    using len by simp
  with len hi lo show ?thesis by simp
qed




text \<open>
  Claim C9. Filtering does not change the dataset: after the filter, the copy for the
  monthly trend and the \<^verbatim>\<open>year_month\<close> assignment, the variable \<^verbatim>\<open>df\<close> refers to the same
  object, that object is the frame it was, \<^verbatim>\<open>data\<close> refers to another object, and every
  object that existed before is unchanged. The view is the value of the function
  \<^verbatim>\<open>data\<close> on the dataset.
\<close>

theorem filter_leaves_dataset:
  assumes valid: "df_ref st < length (heap st)" and run: "script S st = Inr st'"
  shows "df_ref st' = df_ref st \<and> heap st' ! df_ref st' = heap st ! df_ref st \<and>
         data_ref st' \<noteq> df_ref st' \<and> take (length (heap st)) (heap st') = heap st \<and>
         (\<exists>v. data (heap st ! df_ref st) S = Inr v)"
proof -
  from run obtain st1 where f: "filter_step S st = Inr st1"
    and rest: "(if empty (heap st1 ! data_ref st1) then Inr st1
                else bindE (trend_step st1) year_month_step) = Inr st'"
    by (auto simp: script_def bindE_Inr)
  from filter_step_Inr [OF f] obtain v where
    d1: "df_ref st1 = df_ref st" and r1: "data_ref st1 = length (heap st)"
    and v: "data (heap st ! df_ref st) S = Inr v" and h1: "heap st1 = heap st @ [v]"
    by blast
  show ?thesis
  proof (cases "empty (heap st1 ! data_ref st1)")
    case True
    with rest have "st' = st1" by simp
    then show ?thesis using d1 r1 h1 v valid by (auto simp: nth_append)
  next
    case False
    with rest obtain st2 where t: "trend_step st1 = Inr st2"
      and y: "year_month_step st2 = Inr st'"
      by (auto simp: bindE_Inr)
    note t' = trend_step_Inr [OF t]
    note y' = year_month_step_Inr [OF y]
    have d: "df_ref st' = df_ref st" using y'(1) t'(1) d1 by simp
    have r: "data_ref st' = length (heap st)" using y'(2) t'(2) r1 by simp
    have keep1: "heap st2 ! a = heap st ! a" if "a < length (heap st)" for a
    proof -
      have "heap st2 ! a = take (length (heap st1)) (heap st2) ! a"
        using that h1 by simp
      also have "\<dots> = heap st1 ! a" by (simp add: t'(4))
      also have "\<dots> = heap st ! a" using that h1 by (simp add: nth_append)
      finally show ?thesis .
    qed
    have keep2: "heap st' ! a = heap st ! a" if "a < length (heap st)" for a
      using y'(4) [of a] that keep1 [OF that] t'(2) r1 by simp
    have len: "length (heap st) \<le> length (heap st')"
      using y'(3) t'(3) h1 by simp
    have "take (length (heap st)) (heap st') = heap st"
      by (rule nth_equalityI) (use len keep2 in \<open>simp_all\<close>)
    then show ?thesis using d r keep2 [OF valid] valid v by simp
  qed
qed

text \<open>The run on the engineered two-record example with every option selected.\<close>

theorem filter_leaves_dataset_witness:
  "\<exists>df st'. clean_and_engineer no_parse spec_example_frame = Inr df \<and>
     script select_all (example_session df) = Inr st' \<and>
     heap st' ! df_ref st' = df \<and> data_ref st' \<noteq> df_ref st'"
proof -
  from clean_and_engineer_total [OF well_formed_spec_example_frame]
  obtain df where ok: "clean_and_engineer no_parse spec_example_frame = Inr df" by blast
  have "list_all (\<lambda>c. c \<in> set (columns spec_example_frame))
          [''campaign'', ''platform'', ''category'', ''gender'']"
    by (simp add: spec_example_frame_def required_columns_def)
  from clean_and_engineer_filterable [OF ok this]
  have f: "filterable (heap (example_session df) ! df_ref (example_session df)) select_all"
    by (simp add: example_session_def)
  have valid: "df_ref (example_session df) < length (heap (example_session df))"
    by (simp add: example_session_def)
  from script_total [OF valid f] obtain st' where
    run: "script select_all (example_session df) = Inr st'" by blast
  from filter_leaves_dataset [OF valid run] ok run show ?thesis
    by (auto simp: example_session_def)
qed

text \<open>
  Claim C10. The aggregate ratios divide by sums without a guard. On a view with the
  funnel's columns holding finite numbers: when every payout is zero the payout sum is
  zero and the overall ROI is an infinity (NaN only when the revenue sum is zero as
  well); when all orders are zero the cost per order is an infinity likewise and the
  funnel raises ZeroDivisionError; when every reach, or every engagement, is zero the
  funnel raises ZeroDivisionError. The one-record views \<open>zero_view\<close> and
  \<open>no_orders_view\<close> are not empty and show each case: none of the results is the NaN the
  per-record metrics give.
\<close>

theorem aggregates_unguarded:
  assumes f: "finite_view v"
  shows "(all_zero v ''total_payout'' \<longrightarrow>
            column_sum v ''total_payout'' = Inr (Fin 0) \<and>
            roi_all v =
              Inr (if 0 < sum_list (map (\<lambda>r. fin_of (cell_of r ''revenue'')) (rows v)) then PInf
                   else if sum_list (map (\<lambda>r. fin_of (cell_of r ''revenue'')) (rows v)) < 0
                   then NInf else NaN)) \<and>
         (all_zero v ''orders'' \<longrightarrow>
            column_sum v ''orders'' = Inr (Fin 0) \<and>
            cost_per_order v =
              Inr (if 0 < sum_list (map (\<lambda>r. fin_of (cell_of r ''total_payout'')) (rows v))
                   then PInf
                   else if sum_list (map (\<lambda>r. fin_of (cell_of r ''total_payout'')) (rows v)) < 0
                   then NInf else NaN) \<and>
            funnel_metrics v = Inl ZeroDivisionError) \<and>
         (all_zero v ''reach'' \<longrightarrow> funnel_metrics v = Inl ZeroDivisionError) \<and>
         (all_zero v ''engagement'' \<longrightarrow> funnel_metrics v = Inl ZeroDivisionError) \<and>
         rows zero_view \<noteq> [] \<and> all_zero zero_view ''total_payout'' \<and>
         all_zero zero_view ''reach'' \<and> roi_all zero_view = Inr PInf \<and>
         funnel_metrics zero_view = Inl ZeroDivisionError \<and>
         rows no_orders_view \<noteq> [] \<and> all_zero no_orders_view ''orders'' \<and>
         cost_per_order no_orders_view = Inr PInf"
proof -
  note s = finite_view_sums [OF f]
  have a: "column_sum v ''total_payout'' = Inr (Fin 0)" if "all_zero v ''total_payout''"
    using s [of "''total_payout''"] sum_all_zero [OF that] by simp
  have b: "column_sum v ''orders'' = Inr (Fin 0)" if "all_zero v ''orders''"
    using s [of "''orders''"] sum_all_zero [OF that] by simp
  have c: "roi_all zero_view = Inr PInf"
    using roi_all_zero_payout [OF finite_zero_view zero_view_zeros(1)]
    by (simp add: zero_view_revenue)
  have d: "cost_per_order no_orders_view = Inr PInf"
    using cost_per_order_zero_orders [OF finite_no_orders_view no_orders_view_zeros]
    by (simp add: no_orders_view_payout)
  have e: "funnel_metrics zero_view = Inl ZeroDivisionError"
    by (rule funnel_zero_reach [OF finite_zero_view zero_view_zeros(2)])
  have n: "rows zero_view \<noteq> []" "rows no_orders_view \<noteq> []"
    by (simp_all add: zero_view_def no_orders_view_def)
  show ?thesis
  proof (intro conjI impI)
    show "rows zero_view \<noteq> []" by (rule n(1))
    show "rows no_orders_view \<noteq> []" by (rule n(2))
    show "roi_all zero_view = Inr PInf" by (rule c)
    show "cost_per_order no_orders_view = Inr PInf" by (rule d)
    show "funnel_metrics zero_view = Inl ZeroDivisionError" by (rule e)
    show "all_zero zero_view ''total_payout''" by (rule zero_view_zeros(1))
    show "all_zero zero_view ''reach''" by (rule zero_view_zeros(2))
    show "all_zero no_orders_view ''orders''" by (rule no_orders_view_zeros)
  next
    assume z: "all_zero v ''total_payout''"
    show "column_sum v ''total_payout'' = Inr (Fin 0)" by (rule a [OF z])
    show "roi_all v =
              Inr (if 0 < sum_list (map (\<lambda>r. fin_of (cell_of r ''revenue'')) (rows v)) then PInf
                   else if sum_list (map (\<lambda>r. fin_of (cell_of r ''revenue'')) (rows v)) < 0
                   then NInf else NaN)"
      by (rule roi_all_zero_payout [OF f z])
  next
    assume z: "all_zero v ''orders''"
    show "column_sum v ''orders'' = Inr (Fin 0)" by (rule b [OF z])
    show "cost_per_order v =
              Inr (if 0 < sum_list (map (\<lambda>r. fin_of (cell_of r ''total_payout'')) (rows v))
                   then PInf
                   else if sum_list (map (\<lambda>r. fin_of (cell_of r ''total_payout'')) (rows v)) < 0
                   then NInf else NaN)"
      by (rule cost_per_order_zero_orders [OF f z])
    show "funnel_metrics v = Inl ZeroDivisionError" by (rule funnel_zero_orders [OF f z])
  next
    assume z: "all_zero v ''reach''"
    show "funnel_metrics v = Inl ZeroDivisionError" by (rule funnel_zero_reach [OF f z])
  next
    assume z: "all_zero v ''engagement''"
    show "funnel_metrics v = Inl ZeroDivisionError" by (rule funnel_zero_engagement [OF f z])
  qed
qed

text \<open>The theorem at \<open>zero_view\<close>; there the cost per order is \<open>0 / 0\<close>.\<close>

theorem aggregates_unguarded_witness:
  "finite_view zero_view \<and> all_zero zero_view ''total_payout'' \<and>
   all_zero zero_view ''orders'' \<and> all_zero zero_view ''reach'' \<and>
   all_zero zero_view ''engagement'' \<and>
   roi_all zero_view = Inr PInf \<and> cost_per_order zero_view = Inr NaN \<and>
   funnel_metrics zero_view = Inl ZeroDivisionError"
proof -
  note t = aggregates_unguarded [OF finite_zero_view]
  have "roi_all zero_view = Inr PInf"
    using t [THEN conjunct1] zero_view_zeros(1) by (simp add: zero_view_revenue)
  moreover have "cost_per_order zero_view = Inr NaN"
    using t [THEN conjunct2, THEN conjunct1] zero_view_zeros(3,1) sum_all_zero [of zero_view "''total_payout''"]
    by simp
  moreover have "funnel_metrics zero_view = Inl ZeroDivisionError"
    using t [THEN conjunct2, THEN conjunct2, THEN conjunct1] zero_view_zeros(2) by simp
  ultimately show ?thesis using finite_zero_view zero_view_zeros by simp
qed

end
